theory Spec2Isabelle
  imports Main "HOL-Library.Sublist" "HOL-Library.AList"
begin

section \<open>Paths, file system and exceptions\<close>

text \<open>
  A \<open>pathlib.Path\<close> is the list of its components below the root of the file system
  (POSIX paths; a relative path is read from the working directory, which does not
  change).  The file system is a finite association list from paths to nodes;
  \<open>lookup\<close> reads it.  A regular file holds its bytes, a directory is a node of its
  own and its entries are the paths one component longer.  Components are not
  interpreted: a component \<open>..\<close> is a name like any other.  The file system has no
  permissions and no limits on names or space.  A character is a code point below 256.
\<close>

type_synonym path = "string list"

datatype node = File string | Dir

type_synonym fs = "(path \<times> node) list"

datatype exn =
    SystemExit int
  | FileNotFoundError
  | FileExistsError
  | NotADirectoryError
  | IsADirectoryError
  | PermissionError
  | SameFileError
  | BadZipFile
  | CalledProcessError int
  | UnicodeDecodeError
  | NotImplementedError
  | RuntimeError
  | ValueError
  | EOFError
  | OSError
  | ZlibError

definition exn_name :: "exn \<Rightarrow> string" where
  "exn_name e = (case e of
       SystemExit c \<Rightarrow> ''SystemExit''
     | FileNotFoundError \<Rightarrow> ''FileNotFoundError''
     | FileExistsError \<Rightarrow> ''FileExistsError''
     | NotADirectoryError \<Rightarrow> ''NotADirectoryError''
     | IsADirectoryError \<Rightarrow> ''IsADirectoryError''
     | PermissionError \<Rightarrow> ''PermissionError''
     | SameFileError \<Rightarrow> ''SameFileError''
     | BadZipFile \<Rightarrow> ''BadZipFile''
     | CalledProcessError c \<Rightarrow> ''CalledProcessError''
     | UnicodeDecodeError \<Rightarrow> ''UnicodeDecodeError''
     | NotImplementedError \<Rightarrow> ''NotImplementedError''
     | RuntimeError \<Rightarrow> ''RuntimeError''
     | ValueError \<Rightarrow> ''ValueError''
     | EOFError \<Rightarrow> ''EOFError''
     | OSError \<Rightarrow> ''OSError''
     | ZlibError \<Rightarrow> ''zlib.error'')"

definition lookup :: "fs \<Rightarrow> path \<Rightarrow> node option" where
  "lookup fs p = map_of fs p"

definition store :: "path \<Rightarrow> node \<Rightarrow> fs \<Rightarrow> fs" where
  "store p n fs = AList.update p n fs"

definition remove_tree :: "path \<Rightarrow> fs \<Rightarrow> fs" where
  "remove_tree p fs = filter (\<lambda>(q, n). \<not> prefix p q) fs"

definition parent :: "path \<Rightarrow> path" where
  "parent p = butlast p"

definition name :: "path \<Rightarrow> string" where
  "name p = (if p = [] then [] else last p)"

definition path_str :: "path \<Rightarrow> string" where
  "path_str p = (if p = [] then ''/'' else concat (map (\<lambda>c. CHR ''/'' # c) p))"

text \<open>\<open>f'{p}{suffix}'\<close> seen as a path again: the suffix lands on the last component.\<close>

definition with_str_suffix :: "path \<Rightarrow> string \<Rightarrow> path" where
  "with_str_suffix p s = butlast p @ [name p @ s]"

text \<open>
  \<open>base / s\<close> for a string \<open>s\<close>: \<open>pathlib\<close> splits the string at the slashes and
  drops the empty components and the components \<open>.\<close>; a string that starts with a
  slash is an absolute path and replaces the base.  Components \<open>..\<close> are kept.
\<close>

fun split_slash :: "string \<Rightarrow> string list" where
  "split_slash [] = [[]]"
| "split_slash (c # s) =
     (if c = CHR ''/'' then [] # split_slash s
      else (case split_slash s of [] \<Rightarrow> [[c]] | x # xs \<Rightarrow> (c # x) # xs))"

definition path_parts :: "string \<Rightarrow> path" where
  "path_parts s = filter (\<lambda>c. c \<noteq> [] \<and> c \<noteq> ''.'') (split_slash s)"

definition joinpath :: "path \<Rightarrow> string \<Rightarrow> path" where
  "joinpath base s = (if take 1 s = ''/'' then path_parts s else base @ path_parts s)"

definition path_exists :: "fs \<Rightarrow> path \<Rightarrow> bool" where
  "path_exists fs p = (lookup fs p \<noteq> None)"

definition is_dir :: "fs \<Rightarrow> path \<Rightarrow> bool" where
  "is_dir fs p = (lookup fs p = Some Dir)"

text \<open>
  What the system raises for a path that does not exist: \<open>NotADirectoryError\<close> when
  the path leads through a regular file, \<open>FileNotFoundError\<close> otherwise.
\<close>

definition below_file :: "fs \<Rightarrow> path \<Rightarrow> bool" where
  "below_file fs p =
     list_ex (\<lambda>q. case lookup fs q of Some (File c) \<Rightarrow> True | _ \<Rightarrow> False) (butlast (prefixes p))"

definition missing_error :: "fs \<Rightarrow> path \<Rightarrow> exn" where
  "missing_error fs p = (if below_file fs p then NotADirectoryError else FileNotFoundError)"

definition path_mkdir :: "path \<Rightarrow> fs \<Rightarrow> exn + fs" where
  "path_mkdir p fs =
     (case lookup fs p of
        Some n \<Rightarrow> Inl FileExistsError
      | None \<Rightarrow>
          (case lookup fs (parent p) of
             None \<Rightarrow> Inl (missing_error fs p)
           | Some (File c) \<Rightarrow> Inl NotADirectoryError
           | Some Dir \<Rightarrow> Inr (store p Dir fs)))"

definition path_mkdir_exist_ok :: "path \<Rightarrow> fs \<Rightarrow> exn + fs" where
  "path_mkdir_exist_ok p fs =
     (case path_mkdir p fs of
        Inl e \<Rightarrow> if e = FileNotFoundError \<or> \<not> is_dir fs p then Inl e else Inr fs
      | Inr fs' \<Rightarrow> Inr fs')"

definition write_text :: "path \<Rightarrow> string \<Rightarrow> fs \<Rightarrow> exn + fs" where
  "write_text p s fs =
     (case lookup fs p of
        Some Dir \<Rightarrow> Inl IsADirectoryError
      | Some (File c) \<Rightarrow> Inr (store p (File s) fs)
      | None \<Rightarrow>
          (case lookup fs (parent p) of
             None \<Rightarrow> Inl (missing_error fs p)
           | Some (File c) \<Rightarrow> Inl NotADirectoryError
           | Some Dir \<Rightarrow> Inr (store p (File s) fs)))"

definition read_bytes :: "path \<Rightarrow> fs \<Rightarrow> exn + string" where
  "read_bytes p fs =
     (case lookup fs p of
        None \<Rightarrow> Inl (missing_error fs p)
      | Some Dir \<Rightarrow> Inl IsADirectoryError
      | Some (File c) \<Rightarrow> Inr c)"

text \<open>
  \<open>Path.read_text()\<close> opens the file in text mode: the bytes are decoded in the
  encoding of the locale (\<open>decode\<close>, \<open>None\<close> for bytes that do not decode, which
  raises \<open>UnicodeDecodeError\<close>) and every line ending CR LF or CR is read as LF.
\<close>

fun universal_newlines :: "string \<Rightarrow> string" where
  "universal_newlines (a # b # s) =
     (if a = CHR 0x0D
      then (if b = CHR 0x0A then CHR 0x0A # universal_newlines s
            else CHR 0x0A # universal_newlines (b # s))
      else a # universal_newlines (b # s))"
| "universal_newlines [a] = (if a = CHR 0x0D then [CHR 0x0A] else [a])"
| "universal_newlines [] = []"

definition read_text :: "(string \<Rightarrow> string option) \<Rightarrow> path \<Rightarrow> fs \<Rightarrow> exn + string" where
  "read_text decode p fs =
     (case read_bytes p fs of
        Inl e \<Rightarrow> Inl e
      | Inr b \<Rightarrow>
          (case decode b of
             None \<Rightarrow> Inl UnicodeDecodeError
           | Some t \<Rightarrow> Inr (universal_newlines t)))"

definition rmtree :: "path \<Rightarrow> fs \<Rightarrow> exn + fs" where
  "rmtree p fs =
     (case lookup fs p of
        None \<Rightarrow> Inl (missing_error fs p)
      | Some (File c) \<Rightarrow> Inl NotADirectoryError
      | Some Dir \<Rightarrow> Inr (remove_tree p fs))"

text \<open>
  \<open>shutil.copy(src, dst)\<close>: a destination that is a directory receives the file under
  the source's name; the file's bytes are copied.
\<close>

definition shutil_copy :: "path \<Rightarrow> path \<Rightarrow> fs \<Rightarrow> exn + fs" where
  "shutil_copy src dst fs =
     (let dst' = (if is_dir fs dst then dst @ [name src] else dst) in
      if path_exists fs src \<and> src = dst' then Inl SameFileError
      else (case read_bytes src fs of
              Inl e \<Rightarrow> Inl e
            | Inr c \<Rightarrow> write_text dst' c fs))"

text \<open>
  \<open>os.makedirs(p)\<close> on the reversed path: missing ancestors are created first, then
  the directory itself, which must not exist yet.
\<close>

fun makedirs_rev :: "string list \<Rightarrow> fs \<Rightarrow> exn + fs" where
  "makedirs_rev [] fs = path_mkdir [] fs"
| "makedirs_rev (x # rp) fs =
     (if path_exists fs (rev rp) then path_mkdir (rev (x # rp)) fs
      else (case makedirs_rev rp fs of
              Inl e \<Rightarrow> if e = FileExistsError then path_mkdir (rev (x # rp)) fs else Inl e
            | Inr fs' \<Rightarrow> path_mkdir (rev (x # rp)) fs'))"

definition makedirs :: "path \<Rightarrow> fs \<Rightarrow> exn + fs" where
  "makedirs p fs = makedirs_rev (rev p) fs"

text \<open>
  \<open>shutil.copytree(src, dst)\<close>: the source is listed first, then the destination is
  created (it must not exist), then every entry below the source is copied to the same
  relative path below the destination.
\<close>

definition copy_entries :: "path \<Rightarrow> path \<Rightarrow> fs \<Rightarrow> fs" where
  "copy_entries src dst fs =
     map (\<lambda>(q, n). (dst @ drop (length src) q, n))
       (filter (\<lambda>(q, n). strict_prefix src q) fs)"

definition copytree :: "path \<Rightarrow> path \<Rightarrow> fs \<Rightarrow> exn + fs" where
  "copytree src dst fs =
     (case lookup fs src of
        None \<Rightarrow> Inl (missing_error fs src)
      | Some (File c) \<Rightarrow> Inl NotADirectoryError
      | Some Dir \<Rightarrow>
          (case makedirs dst fs of
             Inl e \<Rightarrow> Inl e
           | Inr fs' \<Rightarrow> Inr (copy_entries src dst fs @ fs')))"

text \<open>
  A zip archive is a regular file.  \<open>parse_zip\<close> stands for \<open>zipfile\<close>'s reading of
  its bytes: either the exception that opening the archive raises (\<open>BadZipFile\<close> for
  bytes that are no archive, \<open>NotImplementedError\<close> for a version it does not support,
  and so on), or the members in the order of the archive.  A member has its relative
  path (as \<open>zipfile\<close> cleans it, the directories of members included) and what extracting
  it does: it leaves a node, or it raises (\<open>RuntimeError\<close> for an encrypted member,
  \<open>BadZipFile\<close> for a wrong checksum, and so on) and may leave a node behind all the
  same.

  \<open>extractall\<close> extracts the members in order below the target, a later member replacing
  an earlier one of the same name, and stops at the first member that raises: what was
  extracted before stays.
\<close>

datatype extraction = Extracts node | Breaks exn "node option"

type_synonym zip_member = "path \<times> extraction"

type_synonym zip_reader = "string \<Rightarrow> exn + zip_member list"

definition ZipFile :: "zip_reader \<Rightarrow> path \<Rightarrow> fs \<Rightarrow> exn + zip_member list" where
  "ZipFile parse_zip p fs =
     (case lookup fs p of
        None \<Rightarrow> Inl (missing_error fs p)
      | Some Dir \<Rightarrow> Inl IsADirectoryError
      | Some (File c) \<Rightarrow> parse_zip c)"

fun extracted :: "zip_member list \<Rightarrow> (path \<times> node) list" where
  "extracted [] = []"
| "extracted ((r, Extracts n) # members) = (r, n) # extracted members"
| "extracted ((r, Breaks e left) # members) = (case left of None \<Rightarrow> [] | Some n \<Rightarrow> [(r, n)])"

fun extraction_error :: "zip_member list \<Rightarrow> exn option" where
  "extraction_error [] = None"
| "extraction_error ((r, Extracts n) # members) = extraction_error members"
| "extraction_error ((r, Breaks e left) # members) = Some e"

definition place :: "path \<Rightarrow> (path \<times> node) list \<Rightarrow> fs \<Rightarrow> fs" where
  "place target entries fs =
     map (\<lambda>(r, n). (target @ r, n)) (rev (filter (\<lambda>(r, n). r \<noteq> []) entries)) @ fs"

definition extractall :: "path \<Rightarrow> zip_member list \<Rightarrow> fs \<Rightarrow> exn option \<times> fs" where
  "extractall target members fs =
     (extraction_error members, place target (extracted members) fs)"

text \<open>The entries of a directory, as \<open>os.scandir\<close> lists them.\<close>

definition scandir :: "fs \<Rightarrow> path \<Rightarrow> string list" where
  "scandir fs d =
     remdups (map (\<lambda>(q, n). last q) (filter (\<lambda>(q, n). q \<noteq> [] \<and> butlast q = d) fs))"

subsection \<open>Glob patterns\<close>

text \<open>
  \<open>fnmatch\<close> as \<open>Path.glob\<close> applies it to the name of an entry, case-sensitive:
  \<open>*\<close> stands for any run of characters, \<open>?\<close> for one character, \<open>[...]\<close> for one
  character of a class (members and ranges, a leading \<open>!\<close> for the complement); a
  \<open>[\<close> with no closing bracket stands for itself.  The pattern is one component of a
  path; what \<open>pathlib\<close> does with two adjacent stars inside a component, which differs
  between its versions, is left out.
\<close>

definition find_close :: "string \<Rightarrow> nat option" where
  "find_close pat =
     (let j0 = (if take 1 pat = ''!'' then 1 else 0);
          j1 = (if take 1 (drop j0 pat) = '']'' then Suc j0 else j0);
          rest = drop j1 pat
      in if CHR '']'' \<in> set rest
         then Some (j1 + length (takeWhile (\<lambda>c. c \<noteq> CHR '']'') rest))
         else None)"

fun in_class :: "string \<Rightarrow> char \<Rightarrow> bool" where
  "in_class (a # m # b # rest) c =
     (if m = CHR ''-''
      then ((of_char a :: nat) \<le> of_char c \<and> (of_char c :: nat) \<le> of_char b) \<or> in_class rest c
      else a = c \<or> in_class (m # b # rest) c)"
| "in_class (a # rest) c = (a = c \<or> in_class rest c)"
| "in_class [] c = False"

fun fnmatch :: "string \<Rightarrow> string \<Rightarrow> bool" where
  "fnmatch [] s = (s = [])"
| "fnmatch (c # pat) s =
     (if c = CHR ''*'' then list_ex (\<lambda>k. fnmatch pat (drop k s)) [0..<Suc (length s)]
      else if c = CHR ''?'' then s \<noteq> [] \<and> fnmatch pat (tl s)
      else if c = CHR ''['' then
        (case find_close pat of
           None \<Rightarrow> s \<noteq> [] \<and> hd s = c \<and> fnmatch pat (tl s)
         | Some j \<Rightarrow>
             s \<noteq> [] \<and>
             (if take 1 pat = ''!'' then \<not> in_class (drop 1 (take j pat)) (hd s)
              else in_class (take j pat) (hd s)) \<and>
             fnmatch (drop (Suc j) pat) (tl s))
      else s \<noteq> [] \<and> hd s = c \<and> fnmatch pat (tl s))"

definition path_glob :: "fs \<Rightarrow> path \<Rightarrow> string \<Rightarrow> path list" where
  "path_glob fs d pattern =
     (if is_dir fs d then map (\<lambda>n. d @ [n]) (filter (fnmatch pattern) (scandir fs d)) else [])"

subsection \<open>Formatting\<close>

definition digit_char :: "nat \<Rightarrow> char" where
  "digit_char d = ''0123456789'' ! d"

fun str_nat :: "nat \<Rightarrow> string" where
  "str_nat n = (if n < 10 then [digit_char n] else str_nat (n div 10) @ [digit_char (n mod 10)])"

declare str_nat.simps [simp del]

definition str_int :: "int \<Rightarrow> string" where
  "str_int i = (if i < 0 then CHR ''-'' # str_nat (nat (- i)) else str_nat (nat i))"

text \<open>The format specification \<open>0>3\<close>: right-aligned in a field of three, filled with \<open>0\<close>.\<close>

definition format_0_right_3 :: "int \<Rightarrow> string" where
  "format_0_right_3 i = replicate (3 - length (str_int i)) (CHR ''0'') @ str_int i"

text \<open>
  \<open>repr\<close> of a string: in single quotes, or in double quotes when the string has a
  single quote and no double quote; the backslash and the quote in use are escaped, and
  so are the characters that are not printable: line feed, carriage return and tab by
  their letter, the others by two hexadecimal digits.
\<close>

definition printable :: "char \<Rightarrow> bool" where
  "printable c =
     ((0x20 \<le> (of_char c :: nat) \<and> (of_char c :: nat) \<le> 0x7E) \<or>
      (0xA1 \<le> (of_char c :: nat) \<and> (of_char c :: nat) \<noteq> 0xAD))"

definition hex_digit :: "nat \<Rightarrow> char" where
  "hex_digit d = ''0123456789abcdef'' ! d"

definition repr_char :: "char \<Rightarrow> char \<Rightarrow> string" where
  "repr_char q c =
     (if c = CHR 0x5C then [CHR 0x5C, CHR 0x5C]
      else if c = q then [CHR 0x5C, q]
      else if c = CHR 0x0A then [CHR 0x5C, CHR ''n'']
      else if c = CHR 0x0D then [CHR 0x5C, CHR ''r'']
      else if c = CHR 0x09 then [CHR 0x5C, CHR ''t'']
      else if printable c then [c]
      else [CHR 0x5C, CHR ''x'', hex_digit (of_char c div 16), hex_digit (of_char c mod 16)])"

definition repr_str :: "string \<Rightarrow> string" where
  "repr_str s =
     (let q = (if CHR 0x27 \<in> set s \<and> CHR 0x22 \<notin> set s then CHR 0x22 else CHR 0x27)
      in [q] @ concat (map (repr_char q) s) @ [q])"

section \<open>The process: file system, environment, globals, output\<close>

record world =
  files :: fs
  environ :: "string \<Rightarrow> string option"
  ARENA_ROOT :: path
  printed :: "string list"
  spawned :: "string list list"

type_synonym action = "world \<Rightarrow> exn option \<times> world"

definition andthen :: "action \<Rightarrow> action \<Rightarrow> action" where
  "andthen f g w = (case f w of (None, w') \<Rightarrow> g w' | (Some e, w') \<Rightarrow> (Some e, w'))"

definition on_files :: "(fs \<Rightarrow> exn + fs) \<Rightarrow> action" where
  "on_files f w = (case f (files w) of Inl e \<Rightarrow> (Some e, w) | Inr fs' \<Rightarrow> (None, w\<lparr>files := fs'\<rparr>))"

definition py_print :: "string \<Rightarrow> world \<Rightarrow> world" where
  "py_print s w = w\<lparr>printed := printed w @ [s]\<rparr>"

definition py_exit :: "int \<Rightarrow> action" where
  "py_exit c w = (Some (SystemExit c), w)"

definition exit_status :: "exn option \<Rightarrow> int" where
  "exit_status r = (case r of None \<Rightarrow> 0 | Some (SystemExit c) \<Rightarrow> c | Some e \<Rightarrow> 1)"

text \<open>
  What the platform supplies: the zip reader, the decoder of the locale's encoding, the
  simulation engine found (or not) on the search path and run to its end on the file
  system, the system's temporary directory and the random part of the name \<open>mkdtemp\<close>
  settles on.
\<close>

record platform =
  parse_zip :: zip_reader
  decode_bytes :: "string \<Rightarrow> string option"
  engine :: "string list \<Rightarrow> (string \<Rightarrow> string option) \<Rightarrow> fs \<Rightarrow> exn + (int \<times> fs)"
  gettempdir :: path
  random_name :: string

section \<open>controller_utils\<close>

record MatchData =
  match_number :: int
  teams :: "string option list"
  duration :: int
  recording_config :: "string option"

text \<open>
  Modelled from the spec: the module \<open>controller_utils\<close> is not among the sources.  Its
  constants and the names it chooses are parameters; its path functions resolve them
  against the current arena root: each zone is the subdirectory of the workspace keyed
  by its \<open>zone_id\<close> and holds the robot file, the operating-mode marker and the match
  record are files of the workspace.
\<close>

record controller_utils =
  NUM_ZONES :: nat
  REPO_ROOT :: path
  zone_dirname :: "nat \<Rightarrow> string"
  robot_filename :: string
  mode_filename :: string
  match_record_filename :: string
  encode_match_data :: "MatchData \<Rightarrow> string"
  match_file_of :: "path \<Rightarrow> path"
  supervisor_log_of :: "path \<Rightarrow> path"
  robot_log_filename :: "nat \<Rightarrow> string"
  recording_stem_of :: "path \<Rightarrow> path"

definition get_zone_robot_file_path :: "controller_utils \<Rightarrow> world \<Rightarrow> nat \<Rightarrow> path" where
  "get_zone_robot_file_path cu w zone_id =
     ARENA_ROOT w @ [zone_dirname cu zone_id, robot_filename cu]"

definition get_mode_file :: "controller_utils \<Rightarrow> world \<Rightarrow> path" where
  "get_mode_file cu w = ARENA_ROOT w @ [mode_filename cu]"

definition record_match_data :: "controller_utils \<Rightarrow> MatchData \<Rightarrow> action" where
  "record_match_data cu match_data w =
     on_files (write_text (ARENA_ROOT w @ [match_record_filename cu])
       (encode_match_data cu match_data)) w"

definition get_match_file :: "controller_utils \<Rightarrow> world \<Rightarrow> path" where
  "get_match_file cu w = match_file_of cu (ARENA_ROOT w)"

definition get_competition_supervisor_log_filepath :: "controller_utils \<Rightarrow> world \<Rightarrow> path" where
  "get_competition_supervisor_log_filepath cu w = supervisor_log_of cu (ARENA_ROOT w)"

definition get_robot_log_filename :: "controller_utils \<Rightarrow> nat \<Rightarrow> string" where
  "get_robot_log_filename cu zone_id = robot_log_filename cu zone_id"

definition get_recording_stem :: "controller_utils \<Rightarrow> world \<Rightarrow> path" where
  "get_recording_stem cu w = recording_stem_of cu (ARENA_ROOT w)"

section \<open>Match\<close>

record Namespace =
  archives_dir :: path
  match_num :: int
  tla :: "string list"
  args_duration :: int

definition get_zone_path :: "controller_utils \<Rightarrow> world \<Rightarrow> nat \<Rightarrow> path" where
  "get_zone_path cu w zone_id = parent (get_zone_robot_file_path cu w zone_id)"

definition construct_match_data :: "Namespace \<Rightarrow> MatchData" where
  "construct_match_data args =
     \<lparr>match_number = match_num args,
      teams = map (\<lambda>t. if t \<noteq> ''-'' then Some t else None) (tla args),
      duration = args_duration args,
      recording_config = None\<rparr>"

text \<open>
  The context manager: \<open>body\<close> is the block under \<open>with\<close>.  Whatever the block does,
  the \<open>finally\<close> clause runs, then \<open>TemporaryDirectory\<close> removes the directory and all
  it contains, and an exception of the block goes on.
\<close>

definition mkdtemp_name :: "platform \<Rightarrow> string \<Rightarrow> path" where
  "mkdtemp_name pf sfx = gettempdir pf @ [''tmp'' @ random_name pf @ sfx]"

definition temporary_arena_root :: "platform \<Rightarrow> string \<Rightarrow> action \<Rightarrow> action" where
  "temporary_arena_root pf sfx body w =
     (let original_arena_root = ARENA_ROOT w;
          tmpdir_name = mkdtemp_name pf sfx in
      case path_mkdir tmpdir_name (files w) of
        Inl e \<Rightarrow> (Some e, w)
      | Inr fs1 \<Rightarrow>
          (let w1 = py_print (''Using '' @ repr_str (path_str tmpdir_name) @ '' as the arena'')
                      (w\<lparr>files := fs1\<rparr>);
               w2 = w1\<lparr>environ := (environ w1)(''ARENA_ROOT'' \<mapsto> path_str tmpdir_name),
                       ARENA_ROOT := tmpdir_name\<rparr>;
               (r, w3) = body w2;
               w4 = w3\<lparr>environ := (environ w3)(''ARENA_ROOT'' \<mapsto> path_str original_arena_root),
                       ARENA_ROOT := original_arena_root\<rparr>
           in (r, w4\<lparr>files := remove_tree tmpdir_name (files w4)\<rparr>)))"

definition stage_zone ::
  "controller_utils \<Rightarrow> platform \<Rightarrow> path \<Rightarrow> nat \<Rightarrow> string option \<Rightarrow> action" where
  "stage_zone cu pf archives zone_id t w =
     (let zone_path = get_zone_path cu w zone_id in
      andthen
        (\<lambda>w. if path_exists (files w) zone_path then on_files (rmtree zone_path) w
              else (None, w))
        (\<lambda>w. case t of
                None \<Rightarrow> (None, w)
              | Some tla' \<Rightarrow>
                  andthen (on_files (path_mkdir zone_path))
                    (\<lambda>w. case ZipFile (parse_zip pf)
                                  (with_str_suffix (joinpath archives tla') ''.zip'') (files w) of
                            Inl e \<Rightarrow> (Some e, w)
                          | Inr members \<Rightarrow>
                              (case extractall zone_path members (files w) of
                                 (r, fs') \<Rightarrow> (r, w\<lparr>files := fs'\<rparr>))) w)
        w)"

fun stage_zones ::
  "controller_utils \<Rightarrow> platform \<Rightarrow> path \<Rightarrow> nat \<Rightarrow> string option list \<Rightarrow> action" where
  "stage_zones cu pf archives zone_id [] w = (None, w)"
| "stage_zones cu pf archives zone_id (t # rest) w =
     andthen (stage_zone cu pf archives zone_id t)
       (stage_zones cu pf archives (Suc zone_id) rest) w"

definition prepare_match :: "controller_utils \<Rightarrow> platform \<Rightarrow> path \<Rightarrow> MatchData \<Rightarrow> action" where
  "prepare_match cu pf archives match_data =
     andthen (\<lambda>w. on_files (write_text (get_mode_file cu w) ''comp\<newline>'') w)
       (andthen (record_match_data cu match_data)
          (stage_zones cu pf archives 0 (teams match_data)))"

definition print_error :: "string \<Rightarrow> bool \<Rightarrow> world \<Rightarrow> world" where
  "print_error message strong w =
     (let BOLD = (if strong then CHR 0x1B # ''[1m'' else []);
          FAIL = CHR 0x1B # ''[91m'';
          ENDC = CHR 0x1B # ''[0m''
      in py_print (BOLD @ FAIL @ message @ ENDC) w)"

definition print_fatal :: "string \<Rightarrow> world \<Rightarrow> world" where
  "print_fatal message w = print_error message True w"

definition webots_argv :: "controller_utils \<Rightarrow> string list" where
  "webots_argv cu =
     [''webots'', ''--batch'', ''--stdout'', ''--stderr'', ''--minimize'', ''--mode=realtime'',
      path_str (REPO_ROOT cu @ [''worlds'', ''Arena.wbt''])]"

text \<open>
  \<open>subprocess.check_call\<close>: the launch may fail (\<open>Inl\<close>); a process that ran leaves
  its exit code and the file system as it wrote it, and a code other than zero raises
  \<open>CalledProcessError\<close>.
\<close>

definition check_call :: "platform \<Rightarrow> string list \<Rightarrow> action" where
  "check_call pf argv w =
     (let w' = w\<lparr>spawned := spawned w @ [argv]\<rparr> in
      case engine pf argv (environ w) (files w) of
        Inl e \<Rightarrow> (Some e, w')
      | Inr (returncode, fs') \<Rightarrow>
          (if returncode = 0 then None else Some (CalledProcessError returncode),
           w'\<lparr>files := fs'\<rparr>))"

definition run_match :: "controller_utils \<Rightarrow> platform \<Rightarrow> action" where
  "run_match cu pf w =
     (case check_call pf (webots_argv cu) w of
        (None, w1) \<Rightarrow> (None, w1)
      | (Some e, w1) \<Rightarrow>
          (case e of
             FileNotFoundError \<Rightarrow>
               py_exit 1 (print_fatal
                 ''Could not find webots. Check that you have it installed and on your PATH'' w1)
           | CalledProcessError returncode \<Rightarrow>
               (case read_text (decode_bytes pf)
                       (get_competition_supervisor_log_filepath cu w1) (files w1) of
                  Inl e' \<Rightarrow>
                    if e' = FileNotFoundError
                    then py_exit 1 (print_fatal
                           (''Simulation errored (exit code '' @ str_int returncode @ ''). '' @
                            ''No supervisor logs were found - Webots may have crashed.'') w1)
                    else (Some e', w1)
                | Inr log_text \<Rightarrow>
                    py_exit 1 (print_fatal
                      (''Simulation errored (exit code '' @ str_int returncode @ ''). '' @
                       ''Competition supervisor logs are above.'')
                      (print_error log_text False w1)))
           | _ \<Rightarrow> (Some e, w1)))"

definition collate_zone :: "controller_utils \<Rightarrow> path \<Rightarrow> nat \<Rightarrow> string option \<Rightarrow> action" where
  "collate_zone cu archives zone_id t w =
     (case t of
        None \<Rightarrow> (None, w)
      | Some tla' \<Rightarrow>
          (let log_filname = get_robot_log_filename cu zone_id;
               log_path = get_zone_path cu w zone_id @ [log_filname];
               team_dir = joinpath archives tla'
           in andthen (on_files (path_mkdir_exist_ok team_dir))
                (on_files (shutil_copy log_path team_dir)) w))"

fun collate_zones :: "controller_utils \<Rightarrow> path \<Rightarrow> nat \<Rightarrow> string option list \<Rightarrow> action" where
  "collate_zones cu archives zone_id [] w = (None, w)"
| "collate_zones cu archives zone_id (t # rest) w =
     andthen (collate_zone cu archives zone_id t)
       (collate_zones cu archives (Suc zone_id) rest) w"

definition collate_logs :: "controller_utils \<Rightarrow> path \<Rightarrow> MatchData \<Rightarrow> action" where
  "collate_logs cu archives match_data = collate_zones cu archives 0 (teams match_data)"

definition archive_match_file :: "controller_utils \<Rightarrow> path \<Rightarrow> MatchData \<Rightarrow> action" where
  "archive_match_file cu archives match_data =
     (let matches_dir = archives @ [''matches''] in
      andthen (on_files (path_mkdir_exist_ok matches_dir))
        (\<lambda>w. let completed_match_file =
                   matches_dir @ [format_0_right_3 (match_number match_data) @ ''.yaml'']
              in on_files (shutil_copy (get_match_file cu w) completed_match_file) w))"

fun copy_each :: "path list \<Rightarrow> path \<Rightarrow> action" where
  "copy_each [] dst w = (None, w)"
| "copy_each (p # ps) dst w = andthen (on_files (shutil_copy p dst)) (copy_each ps dst) w"

definition archive_match_recordings :: "controller_utils \<Rightarrow> path \<Rightarrow> action" where
  "archive_match_recordings cu archives =
     (let recordings_dir = archives @ [''recordings''] in
      andthen (on_files (path_mkdir_exist_ok recordings_dir))
        (\<lambda>w. let recording_stem = get_recording_stem cu w in
              andthen
                (copy_each
                   (path_glob (files w) (parent recording_stem) (name recording_stem @ ''.*''))
                   recordings_dir)
                (\<lambda>w'. case copytree (parent recording_stem @ [''textures''])
                               (recordings_dir @ [''textures'']) (files w') of
                         Inl e \<Rightarrow> if e = FileExistsError then (None, w') else (Some e, w')
                       | Inr fs' \<Rightarrow> (None, w'\<lparr>files := fs'\<rparr>)) w))"

definition main :: "controller_utils \<Rightarrow> platform \<Rightarrow> Namespace \<Rightarrow> action" where
  "main cu pf args =
     (let match_data = construct_match_data args in
      temporary_arena_root pf (''match-'' @ str_int (match_number match_data))
        (andthen (prepare_match cu pf (archives_dir args) match_data)
           (andthen (run_match cu pf)
              (andthen (collate_logs cu (archives_dir args) match_data)
                 (andthen (archive_match_file cu (archives_dir args) match_data)
                    (archive_match_recordings cu (archives_dir args)))))))"

section \<open>Notions the properties are stated with\<close>

text \<open>The workspace of a match, and the process as the block under \<open>with\<close> finds it.\<close>

definition nothing_below :: "fs \<Rightarrow> path \<Rightarrow> bool" where
  "nothing_below fs p = list_all (\<lambda>(q, n). \<not> prefix p q) fs"

definition match_workspace :: "platform \<Rightarrow> Namespace \<Rightarrow> path" where
  "match_workspace pf args = mkdtemp_name pf (''match-'' @ str_int (match_num args))"

definition scope_entered :: "platform \<Rightarrow> string \<Rightarrow> world \<Rightarrow> bool" where
  "scope_entered pf sfx w =
     (is_dir (files w) (parent (mkdtemp_name pf sfx)) \<and>
      nothing_below (files w) (mkdtemp_name pf sfx))"

definition scope_start :: "platform \<Rightarrow> string \<Rightarrow> world \<Rightarrow> world" where
  "scope_start pf sfx w =
     w\<lparr>files := store (mkdtemp_name pf sfx) Dir (files w),
       printed := printed w @
         [''Using '' @ repr_str (path_str (mkdtemp_name pf sfx)) @ '' as the arena''],
       environ := (environ w)(''ARENA_ROOT'' \<mapsto> path_str (mkdtemp_name pf sfx)),
       ARENA_ROOT := mkdtemp_name pf sfx\<rparr>"

text \<open>
  The directory of a zone, the archive of a team as the spec names it
  (\<open>{archives_dir}/{team_id}.zip\<close>), and the tree an archive holds: every member at its
  relative path, a later member replacing an earlier one, below a directory.

  A team identifier is a plain name when it is one component of a path as it stands: not
  empty, not \<open>.\<close>, without a slash and without a null character (which no file name
  can hold).  What staging an archive raises, if anything, is what opening it raises or
  else what its first member that cannot be extracted raises.
\<close>

definition plain_name :: "string \<Rightarrow> bool" where
  "plain_name t = (t \<noteq> [] \<and> t \<noteq> ''.'' \<and> CHR ''/'' \<notin> set t \<and> CHR 0x00 \<notin> set t)"

definition plain_teams :: "string option list \<Rightarrow> bool" where
  "plain_teams ts = list_all (\<lambda>t. case t of None \<Rightarrow> True | Some team_id \<Rightarrow> plain_name team_id) ts"

definition archive_failure :: "platform \<Rightarrow> fs \<Rightarrow> path \<Rightarrow> exn option" where
  "archive_failure pf fs p =
     (case ZipFile (parse_zip pf) p fs of
        Inl e \<Rightarrow> Some e
      | Inr members \<Rightarrow> extraction_error members)"

definition zone_dir :: "controller_utils \<Rightarrow> path \<Rightarrow> nat \<Rightarrow> path" where
  "zone_dir cu root zone_id = root @ [zone_dirname cu zone_id]"

definition team_archive :: "path \<Rightarrow> string \<Rightarrow> path" where
  "team_archive archives team_id = archives @ [team_id @ ''.zip'']"

definition zip_tree :: "(path \<times> node) list \<Rightarrow> path \<Rightarrow> node option" where
  "zip_tree entries =
     fold (\<lambda>(r, n) tree. if r = [] then tree else tree(r \<mapsto> n)) entries (Map.empty([] \<mapsto> Dir))"

definition no_orphans :: "fs \<Rightarrow> bool" where
  "no_orphans fs = list_all (\<lambda>(q, n). q = [] \<or> lookup fs (parent q) = Some Dir) fs"

definition zone_staged ::
  "controller_utils \<Rightarrow> platform \<Rightarrow> path \<Rightarrow> fs \<Rightarrow> path \<Rightarrow> nat \<Rightarrow> string option \<Rightarrow> fs \<Rightarrow> bool" where
  "zone_staged cu pf archives fs0 root zone_id t fs' =
     (case t of
        None \<Rightarrow> (\<forall>r. lookup fs' (zone_dir cu root zone_id @ r) = None)
      | Some team_id \<Rightarrow>
          (\<exists>c ms. lookup fs0 (team_archive archives team_id) = Some (File c) \<and>
                  parse_zip pf c = Inr ms \<and> extraction_error ms = None \<and>
                  (\<forall>r. lookup fs' (zone_dir cu root zone_id @ r) = zip_tree (extracted ms) r)))"

definition zone_clear :: "fs \<Rightarrow> path \<Rightarrow> bool" where
  "zone_clear fs z = (lookup fs z = None \<longrightarrow> (\<forall>r. lookup fs (z @ r) = None))"

definition marked :: "controller_utils \<Rightarrow> MatchData \<Rightarrow> world \<Rightarrow> world" where
  "marked cu match_data w =
     w\<lparr>files := store (ARENA_ROOT w @ [match_record_filename cu])
                  (File (encode_match_data cu match_data))
                  (store (ARENA_ROOT w @ [mode_filename cu]) (File ''comp\<newline>'') (files w))\<rparr>"

definition fresh_workspace :: "world \<Rightarrow> bool" where
  "fresh_workspace w =
     (is_dir (files w) (ARENA_ROOT w) \<and>
      list_all (\<lambda>(q, n). \<not> strict_prefix (ARENA_ROOT w) q) (files w))"

definition layout_ok :: "controller_utils \<Rightarrow> nat \<Rightarrow> bool" where
  "layout_ok cu n =
     distinct (map (zone_dirname cu) [0..<n] @ [mode_filename cu, match_record_filename cu])"

definition writes_below_root :: "action \<Rightarrow> bool" where
  "writes_below_root f =
     (\<forall>w r w'. f w = (r, w') \<longrightarrow>
        w' = w\<lparr>files := files w'\<rparr> \<and>
        (\<forall>p. \<not> strict_prefix (ARENA_ROOT w) p \<longrightarrow> lookup (files w') p = lookup (files w) p))"


definition bold_red :: "string \<Rightarrow> string" where
  "bold_red message = CHR 0x1B # ''[1m'' @ CHR 0x1B # ''[91m'' @ message @ CHR 0x1B # ''[0m''"

definition using_line :: "path \<Rightarrow> string" where
  "using_line tmpdir = ''Using '' @ repr_str (path_str tmpdir) @ '' as the arena''"

definition zero_padded_3 :: "int \<Rightarrow> string" where
  "zero_padded_3 n =
     (if n < 1000
      then [digit_char (nat n div 100), digit_char (nat n div 10 mod 10), digit_char (nat n mod 10)]
      else str_int n)"

definition completed_match_file :: "path \<Rightarrow> int \<Rightarrow> path" where
  "completed_match_file archives n = archives @ [''matches'', zero_padded_3 n @ ''.yaml'']"

definition collation_world :: world where
  "collation_world =
     \<lparr>files = [([], Dir), ([''arch''], Dir), ([''ws''], Dir),
               ([''ws'', ''match.json''], File ''SCORES''),
               ([''ws'', ''recordings''], Dir),
               ([''ws'', ''recordings'', ''clip.mp4''], File ''MP4''),
               ([''ws'', ''recordings'', ''clip.srt''], File ''SRT''),
               ([''ws'', ''recordings'', ''clipboard.txt''], File ''other''),
               ([''ws'', ''recordings'', ''textures''], Dir),
               ([''ws'', ''recordings'', ''textures'', ''t.png''], File ''PNG'')],
      environ = Map.empty, ARENA_ROOT = [''ws''], printed = [], spawned = []\<rparr>"

text \<open>
  The directory of the archive that receives the recordings, the location the engine
  records to, the pattern \<open>archive_match_recordings\<close> globs with, a name that holds
  no wildcard character, and the names that share the recording stem: the stem, a dot,
  and any extension.
\<close>

definition recordings_dir :: "path \<Rightarrow> path" where
  "recordings_dir archives = archives @ [''recordings'']"

definition recording_location :: "controller_utils \<Rightarrow> world \<Rightarrow> path" where
  "recording_location cu w = parent (get_recording_stem cu w)"

definition recording_pattern :: "controller_utils \<Rightarrow> world \<Rightarrow> string" where
  "recording_pattern cu w = name (get_recording_stem cu w) @ ''.*''"

definition literal_name :: "string \<Rightarrow> bool" where
  "literal_name s = (CHR ''*'' \<notin> set s \<and> CHR ''?'' \<notin> set s \<and> CHR ''['' \<notin> set s)"

definition shares_stem :: "controller_utils \<Rightarrow> world \<Rightarrow> string \<Rightarrow> bool" where
  "shares_stem cu w n = prefix (name (get_recording_stem cu w) @ ''.'') n"

definition rerun_world :: world where
  "rerun_world =
     collation_world\<lparr>files := files collation_world @
        [([''arch'', ''recordings''], Dir),
         ([''arch'', ''recordings'', ''clip.mp4''], File ''OLD''),
         ([''arch'', ''recordings'', ''textures''], Dir),
         ([''arch'', ''recordings'', ''textures'', ''t.png''], File ''PNG'')]\<rparr>"

section \<open>A concrete event\<close>

text \<open>
  A two-zone arena, the archive of team \<open>ABC\<close>, a file that is no archive, an archive
  whose second member is encrypted, a decoder for ASCII, a temporary directory \<open>/tmp\<close>,
  and engines that are missing, that fail with code 7 and leave a supervisor log, and
  that crash.
\<close>

definition example_utils :: controller_utils where
  "example_utils =
     \<lparr>NUM_ZONES = 2, REPO_ROOT = [''repo''],
      zone_dirname = (\<lambda>i. ''zone-'' @ str_nat i), robot_filename = ''robot.py'',
      mode_filename = ''robot_mode.txt'', match_record_filename = ''match.json'',
      encode_match_data = (\<lambda>md. ''match '' @ str_int (match_number md)),
      match_file_of = (\<lambda>r. r @ [''match.json'']),
      supervisor_log_of = (\<lambda>r. r @ [''supervisor-log.txt'']),
      robot_log_filename = (\<lambda>i. ''log-zone-'' @ str_nat i @ ''.txt''),
      recording_stem_of = (\<lambda>r. r @ [''recordings'', ''clip''])\<rparr>"

definition example_zip :: zip_reader where
  "example_zip c =
     (if c = ''ZIP-ABC''
      then Inr [([''robot.py''], Extracts (File ''print(1)'')), ([''lib''], Extracts Dir),
                ([''lib'', ''util.py''], Extracts (File ''x = 1''))]
      else if c = ''ZIP-ENC''
      then Inr [([''robot.py''], Extracts (File ''print(2)'')),
                ([''secret.py''], Breaks RuntimeError None),
                ([''late.py''], Extracts (File ''never''))]
      else Inl BadZipFile)"

definition ascii_decode :: "string \<Rightarrow> string option" where
  "ascii_decode b = (if list_all (\<lambda>c. (of_char c :: nat) < 128) b then Some b else None)"

definition engine_missing ::
  "string list \<Rightarrow> (string \<Rightarrow> string option) \<Rightarrow> fs \<Rightarrow> exn + (int \<times> fs)" where
  "engine_missing argv env fs = Inl FileNotFoundError"



definition example_platform ::
  "(string list \<Rightarrow> (string \<Rightarrow> string option) \<Rightarrow> fs \<Rightarrow> exn + (int \<times> fs)) \<Rightarrow> platform" where
  "example_platform e =
     \<lparr>parse_zip = example_zip, decode_bytes = ascii_decode, engine = e,
      gettempdir = [''tmp''], random_name = ''X''\<rparr>"

definition example_world :: world where
  "example_world =
     \<lparr>files = [([], Dir), ([''tmp''], Dir), ([''arch''], Dir),
               ([''arch'', ''ABC.zip''], File ''ZIP-ABC''),
               ([''arch'', ''BAD.zip''], File ''not a zip''),
               ([''arch'', ''ENC.zip''], File ''ZIP-ENC'')],
      environ = Map.empty, ARENA_ROOT = [''repo''], printed = [], spawned = []\<rparr>"

definition example_args :: Namespace where
  "example_args =
     \<lparr>archives_dir = [''arch''], match_num = 7, tla = [''ABC'', ''-''], args_duration = 180\<rparr>"

definition missing_args :: Namespace where
  "missing_args = example_args\<lparr>tla := [''ABC'', ''XYZ'']\<rparr>"

definition corrupt_args :: Namespace where
  "corrupt_args = example_args\<lparr>tla := [''ABC'', ''BAD'']\<rparr>"

definition encrypted_args :: Namespace where
  "encrypted_args = example_args\<lparr>tla := [''ABC'', ''ENC'']\<rparr>"

definition staging_world :: world where
  "staging_world =
     \<lparr>files = [([], Dir), ([''tmp''], Dir), ([''tmp'', ''ws''], Dir),
               ([''tmp'', ''ws'', ''zone-1''], Dir),
               ([''tmp'', ''ws'', ''zone-1'', ''old.py''], File ''stale''),
               ([''arch''], Dir), ([''arch'', ''ABC.zip''], File ''ZIP-ABC'')],
      environ = Map.empty, ARENA_ROOT = [''tmp'', ''ws''], printed = [], spawned = []\<rparr>"

definition staged_start :: world where
  "staged_start =
     scope_start (example_platform engine_missing) (''match-'' @ str_int (match_num example_args))
       example_world"

section \<open>Properties\<close>

subsection \<open>Reading the file system after each primitive\<close>

lemma lookup_store:
  "lookup (store p n fs) q = (if q = p then Some n else lookup fs q)"
  by (simp add: lookup_def store_def update_conv')

lemma lookup_remove_tree:
  "lookup (remove_tree p fs) q = (if prefix p q then None else lookup fs q)"
  by (induction fs) (auto simp: lookup_def remove_tree_def)

lemma lookup_append:
  "lookup (xs @ ys) q = (case lookup xs q of Some n \<Rightarrow> Some n | None \<Rightarrow> lookup ys q)"
  by (simp add: lookup_def map_add_def split: option.splits)

lemma lookup_extract_entries:
  "lookup (map (\<lambda>(r, n). (t @ r, n)) ms) q =
     (if prefix t q then map_of ms (drop (length t) q) else None)"
proof (induction ms)
  case Nil
  then show ?case by (simp add: lookup_def)
next
  case (Cons m ms)
  obtain r n where m: "m = (r, n)" by (cases m)
  show ?case
  proof (cases "prefix t q")
    case True
    then obtain s where q: "q = t @ s" by (auto simp: prefix_def)
    with Cons m show ?thesis by (auto simp: lookup_def)
  next
    case False
    with Cons m show ?thesis by (auto simp: lookup_def)
  qed
qed

lemma lookup_place:
  "lookup (place t ms fs) q =
     (case (if prefix t q
            then map_of (rev (filter (\<lambda>(r, n). r \<noteq> []) ms)) (drop (length t) q)
            else None) of
        Some n \<Rightarrow> Some n
      | None \<Rightarrow> lookup fs q)"
  unfolding place_def lookup_append lookup_extract_entries ..

lemma map_of_nonempty_keys:
  "map_of (rev (filter (\<lambda>(r, n). r \<noteq> []) ms)) [] = None"
proof -
  have "[] \<notin> fst ` set (rev (filter (\<lambda>(r, n). r \<noteq> []) ms))" by auto
  then show ?thesis by (simp add: map_of_eq_None_iff)
qed

lemma lookup_place_target:
  "lookup (place t ms fs) t = lookup fs t"
  by (simp add: lookup_place map_of_nonempty_keys)

lemma lookup_place_outside:
  "\<not> prefix t q \<Longrightarrow> lookup (place t ms fs) q = lookup fs q"
  by (simp add: lookup_place)

lemma below_file_iff:
  "below_file fs p \<longleftrightarrow> (\<exists>q c. strict_prefix q p \<and> lookup fs q = Some (File c))"
proof (cases p rule: rev_cases)
  case Nil
  then show ?thesis by (simp add: below_file_def)
next
  case (snoc xs x)
  have sp: "strict_prefix q (xs @ [x]) \<longleftrightarrow> prefix q xs" for q
    by (auto simp: strict_prefix_def)
  have isf: "(case lookup fs q of Some (File c) \<Rightarrow> True | _ \<Rightarrow> False) \<longleftrightarrow>
      (\<exists>c. lookup fs q = Some (File c))" for q
    by (auto split: option.splits node.splits)
  show ?thesis
    unfolding snoc below_file_def sp
    by (auto simp: list_ex_iff in_set_prefixes isf)
qed

lemma missing_error_cong:
  "(\<And>q. strict_prefix q p \<Longrightarrow> lookup fs' q = lookup fs q) \<Longrightarrow>
     missing_error fs' p = missing_error fs p"
  unfolding missing_error_def below_file_iff by auto

lemma lookup_copy_entries:
  "lookup (copy_entries src dst fs) q =
     (if strict_prefix dst q then lookup fs (src @ drop (length dst) q) else None)"
proof (induction fs)
  case Nil
  then show ?case by (simp add: lookup_def copy_entries_def)
next
  case (Cons e fs)
  obtain k n where e: "e = (k, n)" by (cases e)
  have step: "copy_entries src dst (e # fs) =
      (if strict_prefix src k then [(dst @ drop (length src) k, n)] else []) @
      copy_entries src dst fs"
    by (simp add: copy_entries_def e)
  show ?case
  proof (cases "strict_prefix src k")
    case False
    have "src @ drop (length dst) q \<noteq> k" if "strict_prefix dst q"
    proof
      assume eq: "src @ drop (length dst) q = k"
      from that obtain s where "q = dst @ s" "s \<noteq> [] "
        by (auto simp: strict_prefix_def prefix_def)
      with eq have "strict_prefix src k" by (auto simp: strict_prefix_def)
      with False show False by simp
    qed
    with False Cons e step show ?thesis by (auto simp: lookup_def)
  next
    case True
    then obtain s where k: "k = src @ s" "s \<noteq> []"
      by (auto simp: strict_prefix_def prefix_def)
    show ?thesis
    proof (cases "q = dst @ s")
      case True
      with k e step \<open>strict_prefix src k\<close> show ?thesis
        by (auto simp: lookup_def strict_prefix_def)
    next
      case False
      have "src @ drop (length dst) q \<noteq> k" if "strict_prefix dst q"
      proof
        assume eq: "src @ drop (length dst) q = k"
        from that obtain s' where "q = dst @ s'" by (auto simp: strict_prefix_def prefix_def)
        with eq k False show False by simp
      qed
      with False k e step \<open>strict_prefix src k\<close> Cons show ?thesis
        by (auto simp: lookup_def)
    qed
  qed
qed

subsection \<open>The scope of the temporary arena root\<close>

lemma nothing_below_lookup:
  "nothing_below fs p \<Longrightarrow> prefix p q \<Longrightarrow> lookup fs q = None"
  by (induction fs) (auto simp: nothing_below_def lookup_def)

lemma path_mkdir_entered:
  "scope_entered pf sfx w \<Longrightarrow>
   path_mkdir (mkdtemp_name pf sfx) (files w) = Inr (store (mkdtemp_name pf sfx) Dir (files w))"
  by (auto simp: scope_entered_def path_mkdir_def is_dir_def nothing_below_lookup)

lemma temporary_arena_root_entered:
  assumes "scope_entered pf sfx w"
  shows "temporary_arena_root pf sfx body w =
     (fst (body (scope_start pf sfx w)),
      (snd (body (scope_start pf sfx w)))
        \<lparr>environ := (environ (snd (body (scope_start pf sfx w))))
                      (''ARENA_ROOT'' \<mapsto> path_str (ARENA_ROOT w)),
         ARENA_ROOT := ARENA_ROOT w,
         files := remove_tree (mkdtemp_name pf sfx) (files (snd (body (scope_start pf sfx w))))\<rparr>)"
  using path_mkdir_entered [OF assms]
  by (simp add: temporary_arena_root_def scope_start_def py_print_def Let_def
      split: prod.splits)

lemma temporary_arena_root_ARENA_ROOT:
  "ARENA_ROOT (snd (temporary_arena_root pf sfx body w)) = ARENA_ROOT w"
  by (simp add: temporary_arena_root_def Let_def split: sum.splits prod.splits)

lemma main_scope:
  "main cu pf args =
     temporary_arena_root pf (''match-'' @ str_int (match_num args))
        (andthen (prepare_match cu pf (archives_dir args) (construct_match_data args))
           (andthen (run_match cu pf)
              (andthen (collate_logs cu (archives_dir args) (construct_match_data args))
                 (andthen (archive_match_file cu (archives_dir args) (construct_match_data args))
                    (archive_match_recordings cu (archives_dir args))))))"
  by (simp add: main_def Let_def construct_match_data_def)

lemma str_int_7: "str_int 7 = ''7''"
  by (simp add: str_int_def str_nat.simps digit_char_def)

lemma example_workspace:
  "match_workspace (example_platform e) example_args = [''tmp'', ''tmpXmatch-7'']"
  by (simp add: match_workspace_def mkdtemp_name_def example_platform_def example_args_def
      str_int_7)

lemma example_entered:
  "scope_entered (example_platform e) (''match-'' @ str_int (match_num example_args))
     example_world"
  by (simp add: scope_entered_def example_platform_def example_args_def example_world_def
      str_int_7 mkdtemp_name_def is_dir_def nothing_below_def lookup_def parent_def)

text \<open>
  C10: whenever the scope of \<open>temporary_arena_root\<close> has been entered (\<open>mkdtemp\<close>
  has created the directory: its parent is a directory and nothing existed under the new
  name), on its exit
  (whatever the block did, returned or raised) the environment variable \<open>ARENA_ROOT\<close>
  holds the string form of the \<open>controller_utils.ARENA_ROOT\<close> saved at entry, whether
  or not the variable was set before and whatever it held: it is synchronised with the
  saved reference, not put back to its own earlier state.
\<close>

theorem C10_environ_synchronised:
  assumes "scope_entered pf sfx w"
  shows "environ (snd (temporary_arena_root pf sfx body w)) ''ARENA_ROOT'' =
           Some (path_str (ARENA_ROOT w))"
  by (simp add: temporary_arena_root_entered [OF assms])

theorem C10_environ_synchronised_witness:
  "environ example_world ''ARENA_ROOT'' = None \<and>
   environ (snd (temporary_arena_root (example_platform engine_missing) ''match-7''
                   (run_match example_utils (example_platform engine_missing)) example_world))
     ''ARENA_ROOT'' = Some ''/repo''"
proof -
  have h: "scope_entered (example_platform engine_missing) ''match-7'' example_world"
    using example_entered [of engine_missing] by (simp add: example_args_def str_int_7)
  show ?thesis
    using C10_environ_synchronised
      [OF h, of "run_match example_utils (example_platform engine_missing)"]
    by (simp add: example_world_def path_str_def)
qed



subsection \<open>Staging\<close>

lemma get_zone_path_eq: "get_zone_path cu w z = zone_dir cu (ARENA_ROOT w) z"
  by (simp add: get_zone_path_def get_zone_robot_file_path_def parent_def zone_dir_def butlast_append)

lemma split_slash_plain: "CHR ''/'' \<notin> set s \<Longrightarrow> split_slash s = [s]"
  by (induction s) auto

lemma joinpath_plain: "plain_name t \<Longrightarrow> joinpath a t = a @ [t]"
  by (cases t) (auto simp: plain_name_def joinpath_def path_parts_def split_slash_plain)

lemma archive_path_plain:
  "plain_name t \<Longrightarrow> with_str_suffix (joinpath a t) ''.zip'' = team_archive a t"
  by (simp add: joinpath_plain with_str_suffix_def team_archive_def name_def)

lemma plain_teamsD:
  "plain_teams ts \<Longrightarrow> i < length ts \<Longrightarrow> ts ! i = Some t \<Longrightarrow> plain_name t"
  by (auto simp: plain_teams_def list_all_length split: option.splits)

lemma plain_teams_Cons:
  "plain_teams (t # ts) \<longleftrightarrow> (\<forall>x. t = Some x \<longrightarrow> plain_name x) \<and> plain_teams ts"
  by (auto simp: plain_teams_def split: option.splits)

lemma zip_tree_fold:
  "fold (\<lambda>(r, n) tree. if r = [] then tree else tree(r \<mapsto> n)) ms m r =
     (case map_of (rev (filter (\<lambda>(r, n). r \<noteq> []) ms)) r of Some n \<Rightarrow> Some n | None \<Rightarrow> m r)"
proof (induction ms arbitrary: m)
  case Nil
  then show ?case by simp
next
  case (Cons a ms)
  obtain q n where a: "a = (q, n)" by (cases a)
  show ?case
    by (simp add: Cons a map_add_def split: option.splits)
qed

lemma zip_tree_eq:
  "zip_tree ms r = (if r = [] then Some Dir else map_of (rev (filter (\<lambda>(r, n). r \<noteq> []) ms)) r)"
  by (simp add: zip_tree_def zip_tree_fold map_of_nonempty_keys split: option.splits)

lemma no_orphans_parent:
  "no_orphans fs \<Longrightarrow> lookup fs q = Some n \<Longrightarrow> q \<noteq> [] \<Longrightarrow> lookup fs (parent q) = Some Dir"
  unfolding no_orphans_def lookup_def list_all_iff
  by (auto dest!: map_of_SomeD)

lemma no_orphans_below:
  assumes "no_orphans fs" "lookup fs z = None"
  shows "lookup fs (z @ r) = None"
proof (induction r rule: rev_induct)
  case Nil
  then show ?case using assms by simp
next
  case (snoc x xs)
  show ?case
  proof (rule ccontr)
    assume "lookup fs (z @ xs @ [x]) \<noteq> None"
    then obtain n where "lookup fs (z @ xs @ [x]) = Some n" by auto
    from no_orphans_parent [OF assms(1) this] have "lookup fs (z @ xs) = Some Dir"
      by (simp add: parent_def butlast_append)
    with snoc show False by simp
  qed
qed

lemma rmtree_Inr:
  "rmtree p fs = Inr fs' \<Longrightarrow>
     lookup fs p = Some Dir \<and> (\<forall>q. lookup fs' q = (if prefix p q then None else lookup fs q))"
  by (auto simp: rmtree_def lookup_remove_tree split: option.splits node.splits)

lemma path_mkdir_Inr:
  "path_mkdir p fs = Inr fs' \<Longrightarrow>
     lookup fs p = None \<and> lookup fs (parent p) = Some Dir \<and>
     (\<forall>q. lookup fs' q = (if q = p then Some Dir else lookup fs q))"
  by (auto simp: path_mkdir_def lookup_store split: option.splits node.splits)

lemma write_text_Inr:
  "write_text p s fs = Inr fs' \<Longrightarrow>
     (\<forall>q. lookup fs' q = (if q = p then Some (File s) else lookup fs q))"
  by (auto simp: write_text_def lookup_store split: option.splits node.splits)

lemma ZipFile_Inr:
  "ZipFile pz p fs = Inr ms \<longleftrightarrow> (\<exists>c. lookup fs p = Some (File c) \<and> pz c = Inr ms)"
  by (auto simp: ZipFile_def split: option.splits node.splits)

lemma archive_failure_None:
  "archive_failure pf fs p = None \<longleftrightarrow>
     (\<exists>c ms. lookup fs p = Some (File c) \<and> parse_zip pf c = Inr ms \<and> extraction_error ms = None)"
  by (auto simp: archive_failure_def ZipFile_def split: sum.splits option.splits node.splits)

lemma archive_failure_cong:
  assumes "\<And>q. prefix q p \<Longrightarrow> lookup fs' q = lookup fs q"
  shows "archive_failure pf fs' p = archive_failure pf fs p"
proof -
  have "lookup fs' p = lookup fs p" using assms by simp
  moreover have "missing_error fs' p = missing_error fs p"
    by (rule missing_error_cong) (simp add: assms strict_prefix_def)
  ultimately show ?thesis
    by (simp add: archive_failure_def ZipFile_def split: option.splits node.splits)
qed

lemma archive_prefix_outside:
  assumes "\<not> prefix root a" "prefix q (team_archive a x)"
  shows "\<not> strict_prefix root q"
proof
  assume "strict_prefix root q"
  from prefix_order.less_le_trans [OF this assms(2)]
  have "strict_prefix root (a @ [x @ ''.zip''])"
    by (simp add: team_archive_def)
  then have "prefix root a" by (auto simp: strict_prefix_def)
  with assms(1) show False by simp
qed

lemma archive_failure_frame:
  assumes "\<not> prefix root a"
    and "\<And>p. \<not> strict_prefix root p \<Longrightarrow> lookup fs' p = lookup fs p"
  shows "archive_failure pf fs' (team_archive a x) = archive_failure pf fs (team_archive a x)"
  by (rule archive_failure_cong) (use assms archive_prefix_outside in blast)

lemma zone_below_root: "prefix (zone_dir cu root k) p \<Longrightarrow> strict_prefix root p"
  by (auto simp: zone_dir_def prefix_def strict_prefix_def)

lemma stage_zone_None:
  "stage_zone cu pf a k None w =
     (if path_exists (files w) (zone_dir cu (ARENA_ROOT w) k)
      then on_files (rmtree (zone_dir cu (ARENA_ROOT w) k)) w else (None, w))"
  by (simp add: stage_zone_def get_zone_path_eq andthen_def Let_def on_files_def
      split: sum.splits)

lemma stage_zone_Some:
  assumes "plain_name team"
  shows "stage_zone cu pf a k (Some team) w =
     andthen
       (\<lambda>w0. if path_exists (files w0) (zone_dir cu (ARENA_ROOT w) k)
              then on_files (rmtree (zone_dir cu (ARENA_ROOT w) k)) w0 else (None, w0))
       (andthen (on_files (path_mkdir (zone_dir cu (ARENA_ROOT w) k)))
          (\<lambda>w'. case ZipFile (parse_zip pf) (team_archive a team) (files w') of
                  Inl e \<Rightarrow> (Some e, w')
                | Inr members \<Rightarrow>
                    (extraction_error members,
                     w'\<lparr>files := place (zone_dir cu (ARENA_ROOT w) k) (extracted members)
                                   (files w')\<rparr>))) w"
  unfolding stage_zone_def get_zone_path_eq extractall_def Let_def prod.case
  by (simp add: archive_path_plain [OF assms])

lemma stage_zone_frame:
  assumes "stage_zone cu pf a k t w = (r, w1)"
  shows "w1 = w\<lparr>files := files w1\<rparr> \<and>
         (\<forall>p. \<not> prefix (zone_dir cu (ARENA_ROOT w) k) p \<longrightarrow> lookup (files w1) p = lookup (files w) p)"
  using assms
  unfolding stage_zone_def Let_def andthen_def on_files_def get_zone_path_eq extractall_def
  by (auto split: if_splits option.splits sum.splits prod.splits
      dest!: rmtree_Inr path_mkdir_Inr simp: lookup_place_outside)

lemma stage_zone_staged:
  assumes run: "stage_zone cu pf a k t w = (None, w1)"
    and clear: "zone_clear (files w) (zone_dir cu (ARENA_ROOT w) k)"
    and out: "\<not> prefix (ARENA_ROOT w) a"
    and plain: "\<And>x. t = Some x \<Longrightarrow> plain_name x"
  shows "zone_staged cu pf a (files w) (ARENA_ROOT w) k t (files w1)"
proof -
  let ?Z = "zone_dir cu (ARENA_ROOT w) k"
  have zip_out: "\<not> prefix ?Z (team_archive a x)" for x
    using out by (auto simp: zone_dir_def team_archive_def prefix_def append_eq_append_conv2 Cons_eq_append_conv)
  obtain w0 where first:
    "(if path_exists (files w) ?Z then on_files (rmtree ?Z) w else (None, w)) = (None, w0)"
    using run unfolding stage_zone_def Let_def andthen_def get_zone_path_eq
    by (auto split: prod.splits option.splits)
  have w0: "\<forall>q. lookup (files w0) q = (if prefix ?Z q then None else lookup (files w) q)"
    using first clear
    by (auto simp: on_files_def path_exists_def zone_clear_def prefix_def
        split: if_splits sum.splits dest!: rmtree_Inr)
  show ?thesis
  proof (cases t)
    case None
    with run first have "w1 = w0"
      by (simp add: stage_zone_None)
    with w0 None show ?thesis by (simp add: zone_staged_def)
  next
    case (Some team)
    note eq = stage_zone_Some [OF plain [OF Some], of cu pf a k w]
    from run [unfolded Some eq] first obtain fs2 ms where
      mk: "path_mkdir ?Z (files w0) = Inr fs2" and
      zf: "ZipFile (parse_zip pf) (team_archive a team) fs2 = Inr ms" and
      ok: "extraction_error ms = None" and
      w1: "files w1 = place ?Z (extracted ms) fs2"
      unfolding andthen_def on_files_def
      by (auto split: prod.splits option.splits sum.splits)
    from path_mkdir_Inr [OF mk]
    have fs2: "\<forall>q. lookup fs2 q = (if q = ?Z then Some Dir else lookup (files w0) q)" by simp
    from zf obtain c where c: "lookup fs2 (team_archive a team) = Some (File c)" "parse_zip pf c = Inr ms"
      by (auto simp: ZipFile_Inr)
    have "lookup (files w) (team_archive a team) = Some (File c)"
      using c(1) fs2 w0 zip_out [of team] by (auto split: if_splits)
    moreover have "lookup (files w1) (?Z @ r) = zip_tree (extracted ms) r" for r
      using fs2 w0 by (auto simp: w1 lookup_place zip_tree_eq map_of_nonempty_keys split: option.splits)
    ultimately show ?thesis using c(2) ok Some by (auto simp: zone_staged_def)
  qed
qed

lemma stage_zone_succeeds:
  assumes root: "lookup (files w) (ARENA_ROOT w) = Some Dir"
    and nofile: "\<forall>c. lookup (files w) (zone_dir cu (ARENA_ROOT w) k) \<noteq> Some (File c)"
    and out: "\<not> prefix (ARENA_ROOT w) a"
    and zip: "\<And>team. t = Some team \<Longrightarrow>
        plain_name team \<and> archive_failure pf (files w) (team_archive a team) = None"
  shows "\<exists>w1. stage_zone cu pf a k t w = (None, w1)"
proof -
  let ?Z = "zone_dir cu (ARENA_ROOT w) k"
  have zip_out: "\<not> prefix ?Z (team_archive a x)" for x
    using out by (auto simp: zone_dir_def team_archive_def prefix_def append_eq_append_conv2 Cons_eq_append_conv)
  have rootZ: "\<not> prefix ?Z (ARENA_ROOT w)" "parent ?Z = ARENA_ROOT w"
    by (auto simp: zone_dir_def prefix_def parent_def)
  have "\<exists>w0. (if path_exists (files w) ?Z then on_files (rmtree ?Z) w else (None, w)) = (None, w0) \<and>
          lookup (files w0) ?Z = None \<and>
          (\<forall>q. \<not> prefix ?Z q \<longrightarrow> lookup (files w0) q = lookup (files w) q)"
  proof (cases "lookup (files w) ?Z")
    case None
    then show ?thesis by (simp add: path_exists_def)
  next
    case (Some n)
    with nofile have "n = Dir" by (cases n) auto
    with Some show ?thesis
      by (simp add: on_files_def path_exists_def rmtree_def lookup_remove_tree)
  qed
  then obtain w0 where first:
    "(if path_exists (files w) ?Z then on_files (rmtree ?Z) w else (None, w)) = (None, w0)"
    and w0: "lookup (files w0) ?Z = None"
            "\<forall>q. \<not> prefix ?Z q \<longrightarrow> lookup (files w0) q = lookup (files w) q"
    by blast
  show ?thesis
  proof (cases t)
    case None
    with first show ?thesis by (simp add: stage_zone_None)
  next
    case (Some team)
    from zip [OF Some] obtain c ms where c: "lookup (files w) (team_archive a team) = Some (File c)"
      "parse_zip pf c = Inr ms" "extraction_error ms = None" and plain: "plain_name team"
      by (auto simp: archive_failure_None)
    have mk: "path_mkdir ?Z (files w0) = Inr (store ?Z Dir (files w0))"
      using w0 root rootZ by (simp add: path_mkdir_def)
    have "lookup (store ?Z Dir (files w0)) (team_archive a team) = Some (File c)"
      using c(1) w0 zip_out [of team] by (auto simp: lookup_store)
    then have "ZipFile (parse_zip pf) (team_archive a team) (store ?Z Dir (files w0)) = Inr ms"
      using c(2) by (simp add: ZipFile_Inr)
    with first mk c(3) show ?thesis
      unfolding Some stage_zone_Some [OF plain] andthen_def on_files_def
      by simp
  qed
qed

lemma stage_zones_frame:
  "stage_zones cu pf a k ts w = (r, w') \<Longrightarrow>
     w' = w\<lparr>files := files w'\<rparr> \<and>
     (\<forall>p. (\<forall>i<length ts. \<not> prefix (zone_dir cu (ARENA_ROOT w) (k + i)) p) \<longrightarrow>
          lookup (files w') p = lookup (files w) p)"
proof (induction ts arbitrary: k w r w')
  case Nil
  then show ?case by simp
next
  case (Cons t ts)
  obtain r1 w1 where s1: "stage_zone cu pf a k t w = (r1, w1)" by force
  note f1 = stage_zone_frame [OF s1]
  show ?case
  proof (cases r1)
    case (Some e)
    with Cons.prems s1 have "w' = w1" by (simp add: andthen_def)
    with f1 show ?thesis by force
  next
    case None
    with Cons.prems s1 have rest: "stage_zones cu pf a (Suc k) ts w1 = (r, w')"
      by (simp add: andthen_def)
    note f2 = Cons.IH [OF rest]
    have root: "ARENA_ROOT w1 = ARENA_ROOT w" using f1 by (metis world.select_convs(3) world.surjective world.update_convs(1))
    have "w' = w\<lparr>files := files w'\<rparr>" using f1 f2 by (metis world.update_convs(1) world.surjective world.select_convs)
    moreover have "lookup (files w') p = lookup (files w) p"
      if "\<forall>i<length (t # ts). \<not> prefix (zone_dir cu (ARENA_ROOT w) (k + i)) p" for p
    proof -
      from that have "\<not> prefix (zone_dir cu (ARENA_ROOT w) k) p" by force
      moreover from that have "\<forall>i<length ts. \<not> prefix (zone_dir cu (ARENA_ROOT w1) (Suc k + i)) p"
        using root by force
      ultimately show ?thesis using f1 f2 by simp
    qed
    ultimately show ?thesis by blast
  qed
qed

lemma zone_dir_apart:
  "zone_dirname cu x \<noteq> zone_dirname cu y \<Longrightarrow>
     \<not> prefix (zone_dir cu root x) (zone_dir cu root y @ r)"
  by (auto simp: zone_dir_def prefix_def)

lemma zone_dir_not_above_root: "\<not> prefix (zone_dir cu root x) root"
  by (auto simp: zone_dir_def prefix_def)

lemma archive_outside_zone:
  "\<not> prefix root a \<Longrightarrow> \<not> prefix (zone_dir cu root k) (team_archive a x)"
  by (auto simp: zone_dir_def team_archive_def prefix_def append_eq_append_conv2 Cons_eq_append_conv)

lemma zone_staged_transfer:
  assumes "zone_staged cu pf a fs0 root z t fs1"
    and "\<forall>r. lookup fs2 (zone_dir cu root z @ r) = lookup fs1 (zone_dir cu root z @ r)"
    and "\<forall>x. lookup fs0' (team_archive a x) = lookup fs0 (team_archive a x)"
  shows "zone_staged cu pf a fs0' root z t fs2"
  using assms by (auto simp: zone_staged_def split: option.splits)

lemma stage_zone_root:
  "stage_zone cu pf a k t w = (r, w1) \<Longrightarrow> ARENA_ROOT w1 = ARENA_ROOT w"
  by (metis stage_zone_frame world.select_convs(3) world.surjective world.update_convs(1))

lemma stage_zones_root:
  "stage_zones cu pf a k ts w = (r, w1) \<Longrightarrow> ARENA_ROOT w1 = ARENA_ROOT w"
  by (metis stage_zones_frame world.select_convs(3) world.surjective world.update_convs(1))

lemma stage_zones_staged:
  assumes "stage_zones cu pf a k ts w = (None, w')"
    and "inj_on (zone_dirname cu) {k..<k + length ts}"
    and "\<forall>i<length ts. zone_clear (files w) (zone_dir cu (ARENA_ROOT w) (k + i))"
    and "\<not> prefix (ARENA_ROOT w) a"
    and "i < length ts"
    and "plain_teams ts"
  shows "zone_staged cu pf a (files w) (ARENA_ROOT w) (k + i) (ts ! i) (files w')"
  using assms
proof (induction ts arbitrary: k w i)
  case Nil
  then show ?case by simp
next
  case (Cons t ts)
  let ?root = "ARENA_ROOT w"
  obtain r1 w1 where s1: "stage_zone cu pf a k t w = (r1, w1)" by force
  with Cons.prems(1) have r1: "r1 = None" and rest: "stage_zones cu pf a (Suc k) ts w1 = (None, w')"
    by (auto simp: andthen_def split: option.splits)
  note f1 = stage_zone_frame [OF s1]
  have root1: "ARENA_ROOT w1 = ?root" using stage_zone_root [OF s1] .
  note f2 = stage_zones_frame [OF rest]
  have plain: "\<And>x. t = Some x \<Longrightarrow> plain_name x" and plain': "plain_teams ts"
    using Cons.prems(6) by (simp_all add: plain_teams_Cons)
  have apart: "zone_dirname cu (Suc k + j) \<noteq> zone_dirname cu k" if "j < length ts" for j
  proof
    assume "zone_dirname cu (Suc k + j) = zone_dirname cu k"
    with Cons.prems(2) that have "Suc k + j = k"
      by (auto simp: inj_on_def)
    then show False by simp
  qed
  have zips: "lookup (files w1) (team_archive a x) = lookup (files w) (team_archive a x)" for x
    using f1 archive_outside_zone [OF Cons.prems(4)] by simp
  show ?case
  proof (cases i)
    case 0
    have clear: "zone_clear (files w) (zone_dir cu ?root k)"
      using Cons.prems(3) by force
    have st: "zone_staged cu pf a (files w) ?root k t (files w1)"
      using stage_zone_staged [OF s1 [unfolded r1] clear Cons.prems(4) plain] .
    have "lookup (files w') (zone_dir cu ?root k @ r) = lookup (files w1) (zone_dir cu ?root k @ r)" for r
      using f2 apart zone_dir_apart [of cu _ k ?root r] root1 by simp
    with st 0 show ?thesis
      using zone_staged_transfer [of cu pf a "files w" ?root k t "files w1" "files w'" "files w"] by simp
  next
    case (Suc j)
    with Cons.prems(5) have j: "j < length ts" by simp
    have inj': "inj_on (zone_dirname cu) {Suc k..<Suc k + length ts}"
      using Cons.prems(2) by (rule inj_on_subset) auto
    have clear': "\<forall>i<length ts. zone_clear (files w1) (zone_dir cu (ARENA_ROOT w1) (Suc k + i))"
    proof (intro allI impI)
      fix i' assume i': "i' < length ts"
      have c: "zone_clear (files w) (zone_dir cu ?root (k + Suc i'))"
        using Cons.prems(3) i' by force
      have same: "lookup (files w1) (zone_dir cu ?root (Suc k + i') @ r) =
            lookup (files w) (zone_dir cu ?root (Suc k + i') @ r)" for r
        using f1 apart [OF i'] zone_dir_apart [of cu k "Suc k + i'" ?root r] by (simp add: eq_commute)
      show "zone_clear (files w1) (zone_dir cu (ARENA_ROOT w1) (Suc k + i'))"
        using c same same [of "[]"] by (simp add: zone_clear_def root1)
    qed
    have out': "\<not> prefix (ARENA_ROOT w1) a" using Cons.prems(4) root1 by simp
    from Cons.IH [OF rest inj' clear' out' j plain']
    have "zone_staged cu pf a (files w1) ?root (Suc k + j) (ts ! j) (files w')"
      by (simp add: root1)
    then show ?thesis
      using zone_staged_transfer [of cu pf a "files w1" ?root "Suc k + j" "ts ! j" "files w'" "files w'" "files w"]
        zips Suc by simp
  qed
qed

lemma on_files_None:
  "on_files f w = (None, w1) \<longleftrightarrow> (\<exists>fs'. f (files w) = Inr fs' \<and> w1 = w\<lparr>files := fs'\<rparr>)"
  by (auto simp: on_files_def split: sum.splits)

lemma andthen_None:
  "andthen f g w = (None, w') \<longleftrightarrow> (\<exists>w1. f w = (None, w1) \<and> g w1 = (None, w'))"
  by (auto simp: andthen_def split: prod.splits option.splits)

lemma andthen_Some:
  "f w = (Some e, w1) \<Longrightarrow> andthen f g w = (Some e, w1)"
  by (simp add: andthen_def)

lemma andthen_step:
  "f w = (None, w1) \<Longrightarrow> andthen f g w = g w1"
  by (simp add: andthen_def)

lemma write_text_store: "write_text p s fs = Inr fs' \<Longrightarrow> fs' = store p (File s) fs"
  by (auto simp: write_text_def split: option.splits node.splits)

lemma prepare_match_None:
  assumes "prepare_match cu pf a md w = (None, w')"
  shows "stage_zones cu pf a 0 (teams md) (marked cu md w) = (None, w')"
proof -
  from assms obtain w1 w2 where
    m: "on_files (write_text (get_mode_file cu w) ''comp\<newline>'') w = (None, w1)" and
    r: "record_match_data cu md w1 = (None, w2)" and
    s: "stage_zones cu pf a 0 (teams md) w2 = (None, w')"
    unfolding prepare_match_def andthen_None by blast
  from m have w1: "w1 = w\<lparr>files := store (ARENA_ROOT w @ [mode_filename cu]) (File ''comp\<newline>'') (files w)\<rparr>"
    by (auto simp: on_files_None get_mode_file_def dest: write_text_store)
  from r have "w2 = w1\<lparr>files := store (ARENA_ROOT w1 @ [match_record_filename cu])
      (File (encode_match_data cu md)) (files w1)\<rparr>"
    by (auto simp: record_match_data_def on_files_None dest: write_text_store)
  with w1 have "w2 = marked cu md w" by (simp add: marked_def)
  with s show ?thesis by simp
qed

lemma lookup_marked:
  "lookup (files (marked cu md w)) q =
     (if q = ARENA_ROOT w @ [match_record_filename cu] then Some (File (encode_match_data cu md))
      else if q = ARENA_ROOT w @ [mode_filename cu] then Some (File ''comp\<newline>'')
      else lookup (files w) q)"
  by (simp add: marked_def lookup_store)

lemma marked_root [simp]: "ARENA_ROOT (marked cu md w) = ARENA_ROOT w"
  by (simp add: marked_def)

lemma marked_archive:
  "\<not> prefix (ARENA_ROOT w) a \<Longrightarrow>
   lookup (files (marked cu md w)) (team_archive a x) = lookup (files w) (team_archive a x)"
  by (auto simp: lookup_marked team_archive_def prefix_def append_eq_append_conv2 Cons_eq_append_conv)

lemma marked_frame:
  "\<not> strict_prefix (ARENA_ROOT w) p \<Longrightarrow> lookup (files (marked cu md w)) p = lookup (files w) p"
  by (auto simp: lookup_marked strict_prefix_def)

lemma marked_archive_failure:
  "\<not> prefix (ARENA_ROOT w) a \<Longrightarrow>
   archive_failure pf (files (marked cu md w)) (team_archive a x) =
     archive_failure pf (files w) (team_archive a x)"
  using archive_failure_frame [of "ARENA_ROOT w" a "files (marked cu md w)" "files w" pf x]
    marked_frame [of w _ cu md]
  by blast

lemma marked_zone_clear:
  assumes "no_orphans (files w)"
  shows "zone_clear (files (marked cu md w)) (zone_dir cu (ARENA_ROOT w) z)"
  unfolding zone_clear_def
proof (intro impI allI)
  fix r
  assume none: "lookup (files (marked cu md w)) (zone_dir cu (ARENA_ROOT w) z) = None"
  then have n0: "lookup (files w) (zone_dir cu (ARENA_ROOT w) z) = None"
    by (auto simp: lookup_marked split: if_splits)
  from none have ne: "zone_dirname cu z \<noteq> match_record_filename cu" "zone_dirname cu z \<noteq> mode_filename cu"
    by (auto simp: lookup_marked zone_dir_def split: if_splits)
  have "lookup (files w) (zone_dir cu (ARENA_ROOT w) z @ r) = None"
    using no_orphans_below [OF assms n0] .
  with ne show "lookup (files (marked cu md w)) (zone_dir cu (ARENA_ROOT w) z @ r) = None"
    by (auto simp: lookup_marked zone_dir_def)
qed

lemma stage_zones_append:
  "stage_zones cu pf a k (xs @ ys) w =
     andthen (stage_zones cu pf a k xs) (stage_zones cu pf a (k + length xs) ys) w"
proof (induction xs arbitrary: k w)
  case Nil
  then show ?case by (simp add: andthen_def)
next
  case (Cons x xs)
  show ?case
    by (cases "stage_zone cu pf a k x w") (auto simp: andthen_def Cons split: option.splits)
qed

lemma stage_zones_succeeds:
  assumes "lookup (files w) (ARENA_ROOT w) = Some Dir"
    and "\<forall>i<length ts. \<forall>c. lookup (files w) (zone_dir cu (ARENA_ROOT w) (k + i)) \<noteq> Some (File c)"
    and "inj_on (zone_dirname cu) {k..<k + length ts}"
    and "\<not> prefix (ARENA_ROOT w) a"
    and "plain_teams ts"
    and "\<forall>i<length ts. \<forall>team. ts ! i = Some team \<longrightarrow>
          archive_failure pf (files w) (team_archive a team) = None"
  shows "\<exists>w'. stage_zones cu pf a k ts w = (None, w')"
  using assms
proof (induction ts arbitrary: k w)
  case Nil
  then show ?case by simp
next
  case (Cons t ts)
  let ?root = "ARENA_ROOT w"
  have nofile: "\<forall>c. lookup (files w) (zone_dir cu ?root k) \<noteq> Some (File c)"
    using Cons.prems(2) by force
  have plain: "\<And>x. t = Some x \<Longrightarrow> plain_name x" and plain': "plain_teams ts"
    using Cons.prems(5) by (simp_all add: plain_teams_Cons)
  have zip: "plain_name team \<and> archive_failure pf (files w) (team_archive a team) = None"
    if "t = Some team" for team
    using Cons.prems(6) [rule_format, of 0 team] that plain by simp
  from stage_zone_succeeds [OF Cons.prems(1) nofile Cons.prems(4) zip]
  obtain w1 where s1: "stage_zone cu pf a k t w = (None, w1)" by blast
  note f1 = stage_zone_frame [OF s1]
  have root1: "ARENA_ROOT w1 = ?root" using stage_zone_root [OF s1] .
  have apart: "zone_dirname cu k \<noteq> zone_dirname cu (Suc k + j)" if "j < length ts" for j
  proof
    assume "zone_dirname cu k = zone_dirname cu (Suc k + j)"
    with Cons.prems(3) that have "k = Suc k + j" by (auto simp: inj_on_def)
    then show False by simp
  qed
  have p1: "lookup (files w1) (ARENA_ROOT w1) = Some Dir"
    using f1 Cons.prems(1) zone_dir_not_above_root [of cu ?root k] by (simp add: root1)
  have p2: "\<forall>i<length ts. \<forall>c. lookup (files w1) (zone_dir cu (ARENA_ROOT w1) (Suc k + i)) \<noteq> Some (File c)"
  proof (intro allI impI)
    fix i c assume i: "i < length ts"
    have "lookup (files w1) (zone_dir cu ?root (Suc k + i)) = lookup (files w) (zone_dir cu ?root (k + Suc i))"
      using f1 zone_dir_apart [OF apart [OF i], of ?root "[]"] by simp
    moreover have "lookup (files w) (zone_dir cu ?root (k + Suc i)) \<noteq> Some (File c)"
      using Cons.prems(2) [rule_format, of "Suc i" c] i by simp
    ultimately show "lookup (files w1) (zone_dir cu (ARENA_ROOT w1) (Suc k + i)) \<noteq> Some (File c)"
      by (simp add: root1)
  qed
  have p3: "inj_on (zone_dirname cu) {Suc k..<Suc k + length ts}"
    using Cons.prems(3) by (rule inj_on_subset) auto
  have p4: "\<not> prefix (ARENA_ROOT w1) a" using Cons.prems(4) root1 by simp
  have same: "archive_failure pf (files w1) (team_archive a x) =
      archive_failure pf (files w) (team_archive a x)" for x
    by (rule archive_failure_frame [OF Cons.prems(4)]) (use f1 zone_below_root in blast)
  have p6: "\<forall>i<length ts. \<forall>team. ts ! i = Some team \<longrightarrow>
          archive_failure pf (files w1) (team_archive a team) = None"
    unfolding same using Cons.prems(6) by force
  from Cons.IH [OF p1 p2 p3 p4 plain' p6] obtain w' where "stage_zones cu pf a (Suc k) ts w1 = (None, w')"
    by blast
  with s1 show ?case by (simp add: andthen_def)
qed

lemma stage_zone_fails:
  assumes root: "lookup (files w) (ARENA_ROOT w) = Some Dir"
    and none: "lookup (files w) (zone_dir cu (ARENA_ROOT w) k) = None"
    and out: "\<not> prefix (ARENA_ROOT w) a"
    and plain: "plain_name team"
    and bad: "archive_failure pf (files w) (team_archive a team) = Some e"
  shows "\<exists>w1. stage_zone cu pf a k (Some team) w = (Some e, w1) \<and>
           lookup (files w1) (zone_dir cu (ARENA_ROOT w) k) = Some Dir"
proof -
  let ?Z = "zone_dir cu (ARENA_ROOT w) k"
  let ?fs = "store ?Z Dir (files w)"
  have mk: "path_mkdir ?Z (files w) = Inr ?fs"
    using none root by (simp add: path_mkdir_def zone_dir_def parent_def)
  have "archive_failure pf ?fs (team_archive a team) = archive_failure pf (files w) (team_archive a team)"
    by (rule archive_failure_frame [OF out]) (use zone_below_root [of cu "ARENA_ROOT w" k] in \<open>auto simp: lookup_store\<close>)
  with bad have bad': "archive_failure pf ?fs (team_archive a team) = Some e" by simp
  show ?thesis
  proof (cases "ZipFile (parse_zip pf) (team_archive a team) ?fs")
    case (Inl e')
    with bad' have "e' = e" by (simp add: archive_failure_def)
    with Inl mk none show ?thesis
      unfolding stage_zone_Some [OF plain] andthen_def on_files_def
      by (simp add: path_exists_def lookup_store)
  next
    case (Inr ms)
    with bad' have "extraction_error ms = Some e" by (simp add: archive_failure_def)
    with Inr mk none show ?thesis
      unfolding stage_zone_Some [OF plain] andthen_def on_files_def
      by (simp add: path_exists_def lookup_place_target lookup_store)
  qed
qed

lemma not_strict_prefix_lookup:
  "list_all (\<lambda>(q, n). \<not> strict_prefix r q) fs \<Longrightarrow> strict_prefix r q \<Longrightarrow> lookup fs q = None"
  by (induction fs) (auto simp: lookup_def)

lemma fresh_workspace_lookup:
  "fresh_workspace w \<Longrightarrow> strict_prefix (ARENA_ROOT w) q \<Longrightarrow> lookup (files w) q = None"
  using not_strict_prefix_lookup [of "ARENA_ROOT w" "files w" q]
  by (simp add: fresh_workspace_def)

lemma fresh_workspace_child:
  "fresh_workspace w \<Longrightarrow> lookup (files w) (ARENA_ROOT w @ [x]) = None"
  by (rule fresh_workspace_lookup) (simp_all add: strict_prefix_def)

lemma fresh_workspace_root: "fresh_workspace w \<Longrightarrow> lookup (files w) (ARENA_ROOT w) = Some Dir"
  by (simp add: fresh_workspace_def is_dir_def)

lemma prepare_match_fresh:
  assumes "fresh_workspace w"
  shows "prepare_match cu pf a md w = stage_zones cu pf a 0 (teams md) (marked cu md w)"
proof -
  let ?root = "ARENA_ROOT w"
  let ?w1 = "w\<lparr>files := store (?root @ [mode_filename cu]) (File ''comp\<newline>'') (files w)\<rparr>"
  have "lookup (files w) (?root @ [mode_filename cu]) = None"
    using fresh_workspace_child [OF assms] by simp
  then have m: "on_files (write_text (get_mode_file cu w) ''comp\<newline>'') w = (None, ?w1)"
    using fresh_workspace_root [OF assms]
    by (simp add: on_files_def write_text_def get_mode_file_def parent_def)
  have "lookup (files ?w1) (?root @ [match_record_filename cu]) \<noteq> Some Dir"
    using fresh_workspace_child [OF assms, of "match_record_filename cu"]
    by (simp add: lookup_store)
  moreover have "lookup (files ?w1) ?root = Some Dir"
    using fresh_workspace_root [OF assms] by (simp add: lookup_store)
  ultimately have r: "record_match_data cu md ?w1 = (None, marked cu md w)"
    by (auto simp: record_match_data_def on_files_def write_text_def parent_def marked_def
        split: option.splits node.splits)
  show ?thesis
    using m r by (simp add: prepare_match_def andthen_def)
qed

lemma layout_ok_zones:
  assumes "layout_ok cu n"
  shows "inj_on (zone_dirname cu) {0..<n}"
    and "i < n \<Longrightarrow> zone_dirname cu i \<noteq> mode_filename cu"
    and "i < n \<Longrightarrow> zone_dirname cu i \<noteq> match_record_filename cu"
    and "mode_filename cu \<noteq> match_record_filename cu"
proof -
  from assms show "inj_on (zone_dirname cu) {0..<n}"
    by (simp add: layout_ok_def distinct_map)
  from assms have "mode_filename cu \<notin> zone_dirname cu ` {0..<n}"
    "match_record_filename cu \<notin> zone_dirname cu ` {0..<n}"
    by (auto simp: layout_ok_def)
  then show "i < n \<Longrightarrow> zone_dirname cu i \<noteq> mode_filename cu"
    "i < n \<Longrightarrow> zone_dirname cu i \<noteq> match_record_filename cu"
    by (metis atLeastLessThan_iff imageI zero_le)+
  from assms show "mode_filename cu \<noteq> match_record_filename cu"
    by (simp add: layout_ok_def)
qed

lemma prepare_match_fails_at:
  assumes fresh: "fresh_workspace w"
    and layout: "layout_ok cu (length (teams md))"
    and out: "\<not> prefix (ARENA_ROOT w) a"
    and plain: "plain_teams (teams md)"
    and k: "k < length (teams md)" "teams md ! k = Some team"
    and good: "\<forall>j<k. \<forall>t. teams md ! j = Some t \<longrightarrow>
        archive_failure pf (files w) (team_archive a t) = None"
    and bad: "archive_failure pf (files w) (team_archive a team) = Some e"
  shows "\<exists>wk w'. stage_zones cu pf a 0 (take k (teams md)) (marked cu md w) = (None, wk) \<and>
           prepare_match cu pf a md w = (Some e, w') \<and>
           w' = wk\<lparr>files := files w'\<rparr> \<and>
           lookup (files w') (zone_dir cu (ARENA_ROOT w) k) = Some Dir \<and>
           (\<forall>p. \<not> prefix (zone_dir cu (ARENA_ROOT w) k) p \<longrightarrow>
                lookup (files w') p = lookup (files wk) p)"
proof -
  let ?root = "ARENA_ROOT w"
  let ?wm = "marked cu md w"
  let ?ts = "teams md"
  note lay = layout_ok_zones [OF layout]
  have split: "?ts = take k ?ts @ Some team # drop (Suc k) ?ts"
    using k by (metis id_take_nth_drop)
  have lenk: "length (take k ?ts) = k" using k by simp
  have zone_m: "lookup (files ?wm) (zone_dir cu ?root i) = None" if "i < length ?ts" for i
    using fresh_workspace_child [OF fresh, of "zone_dirname cu i"] lay(2,3) [OF that]
    by (auto simp: lookup_marked zone_dir_def)
  have root_m: "lookup (files ?wm) (ARENA_ROOT ?wm) = Some Dir"
    using fresh_workspace_root [OF fresh] by (simp add: lookup_marked)
  have p2: "\<forall>i<length (take k ?ts). \<forall>c.
      lookup (files ?wm) (zone_dir cu (ARENA_ROOT ?wm) (0 + i)) \<noteq> Some (File c)"
    using zone_m k by simp
  have p3: "inj_on (zone_dirname cu) {0..<0 + length (take k ?ts)}"
    using lay(1) k by (auto intro: inj_on_subset)
  have p4: "\<not> prefix (ARENA_ROOT ?wm) a" using out by simp
  have p5: "plain_teams (take k ?ts)"
    using plain unfolding plain_teams_def list_all_iff by (auto dest: in_set_takeD)
  have p6: "\<forall>i<length (take k ?ts). \<forall>t. take k ?ts ! i = Some t \<longrightarrow>
      archive_failure pf (files ?wm) (team_archive a t) = None"
    using good k by (simp add: marked_archive_failure [OF out])
  from stage_zones_succeeds [OF root_m p2 p3 p4 p5 p6]
  obtain wk where wk: "stage_zones cu pf a 0 (take k ?ts) ?wm = (None, wk)" by blast
  note fk = stage_zones_frame [OF wk]
  have rootk: "ARENA_ROOT wk = ?root" using stage_zones_root [OF wk] by simp
  have apart: "zone_dirname cu i \<noteq> zone_dirname cu k" if "i < k" for i
    using inj_onD [OF lay(1), of i k] that k by auto
  have k_root: "lookup (files wk) (ARENA_ROOT wk) = Some Dir"
    using fk root_m zone_dir_not_above_root [of cu ?root] by (simp add: rootk)
  have k_zone: "lookup (files wk) (zone_dir cu (ARENA_ROOT wk) k) = None"
    using fk zone_m [OF k(1)] apart zone_dir_apart [of cu _ k ?root "[]"] by (simp add: rootk lenk)
  have "archive_failure pf (files wk) (team_archive a team) =
      archive_failure pf (files ?wm) (team_archive a team)"
    by (rule archive_failure_frame [OF out]) (use fk zone_below_root in force)
  with bad have k_bad: "archive_failure pf (files wk) (team_archive a team) = Some e"
    by (simp add: marked_archive_failure [OF out])
  have k_out: "\<not> prefix (ARENA_ROOT wk) a" using out rootk by simp
  have k_plain: "plain_name team" using plain_teamsD [OF plain k] .
  from stage_zone_fails [OF k_root k_zone k_out k_plain k_bad]
  obtain w' where sk: "stage_zone cu pf a k (Some team) wk = (Some e, w')"
    and zk: "lookup (files w') (zone_dir cu ?root k) = Some Dir"
    by (auto simp: rootk)
  note f' = stage_zone_frame [OF sk, unfolded rootk]
  have full: "stage_zones cu pf a 0 (take k ?ts @ Some team # drop (Suc k) ?ts) ?wm = (Some e, w')"
    using wk sk k(1) by (simp add: stage_zones_append andthen_def min_def)
  have "stage_zones cu pf a 0 ?ts ?wm = (Some e, w')"
    by (subst split) (rule full)
  then have "prepare_match cu pf a md w = (Some e, w')"
    by (simp add: prepare_match_fresh [OF fresh])
  with wk zk f' show ?thesis by blast
qed

text \<open>
  C1: let \<open>prepare_match\<close> complete on a workspace outside of which the archives lie,
  in a file system where every entry lies in a directory, for zone names that differ
  and an assignment of length \<open>NUM_ZONES\<close> whose team identifiers are plain names.
  Then the directory of a zone exists if and only if the zone has a team; the directory
  of a zone with a team holds exactly the tree of \<open>{archives_dir}/{team_id}.zip\<close>, all
  of whose members were extracted, at the same relative paths, whatever the directory
  held before; and nothing is left at or below the directory of an empty zone.
\<close>

theorem C1_zones_staged:
  assumes names: "distinct (map (zone_dirname cu) [0..<NUM_ZONES cu])"
    and len: "length (teams match_data) = NUM_ZONES cu"
    and wf: "no_orphans (files w)"
    and out: "\<not> prefix (ARENA_ROOT w) archives"
    and plain: "plain_teams (teams match_data)"
    and run: "prepare_match cu pf archives match_data w = (None, w')"
    and z: "zone_id < NUM_ZONES cu"
  shows "(path_exists (files w') (get_zone_path cu w' zone_id) \<longleftrightarrow>
            teams match_data ! zone_id \<noteq> None) \<and>
         (\<forall>team_id. teams match_data ! zone_id = Some team_id \<longrightarrow>
            (\<exists>c members.
               lookup (files w) (team_archive archives team_id) = Some (File c) \<and>
               parse_zip pf c = Inr members \<and> extraction_error members = None \<and>
               (\<forall>r. lookup (files w') (get_zone_path cu w' zone_id @ r) =
                      zip_tree (extracted members) r))) \<and>
         (teams match_data ! zone_id = None \<longrightarrow>
            (\<forall>r. lookup (files w') (get_zone_path cu w' zone_id @ r) = None))"
proof -
  let ?wm = "marked cu match_data w"
  have st: "stage_zones cu pf archives 0 (teams match_data) ?wm = (None, w')"
    using prepare_match_None [OF run] .
  have root: "ARENA_ROOT w' = ARENA_ROOT w"
    using stage_zones_root [OF st] by simp
  have inj: "inj_on (zone_dirname cu) {0..<0 + length (teams match_data)}"
    using names len by (simp add: distinct_map)
  have clear: "\<forall>i<length (teams match_data).
      zone_clear (files ?wm) (zone_dir cu (ARENA_ROOT ?wm) (0 + i))"
    using marked_zone_clear [OF wf] by simp
  have out': "\<not> prefix (ARENA_ROOT ?wm) archives" using out by simp
  have zi: "zone_id < length (teams match_data)" using z len by simp
  from stage_zones_staged [OF st inj clear out' zi plain]
  have "zone_staged cu pf archives (files ?wm) (ARENA_ROOT w) zone_id
          (teams match_data ! zone_id) (files w')" by simp
  then have staged: "zone_staged cu pf archives (files w) (ARENA_ROOT w) zone_id
          (teams match_data ! zone_id) (files w')"
    using zone_staged_transfer [of cu pf archives "files ?wm" "ARENA_ROOT w" zone_id
        "teams match_data ! zone_id" "files w'" "files w'" "files w"]
      marked_archive [OF out] by simp
  have zp: "get_zone_path cu w' zone_id = zone_dir cu (ARENA_ROOT w) zone_id"
    by (simp add: get_zone_path_eq root)
  show ?thesis
  proof (cases "teams match_data ! zone_id")
    case None
    with staged have all: "\<forall>r. lookup (files w') (zone_dir cu (ARENA_ROOT w) zone_id @ r) = None"
      by (simp add: zone_staged_def)
    from all [rule_format, of "[]"] all None show ?thesis
      by (simp add: zp path_exists_def)
  next
    case (Some team)
    with staged obtain c ms where
      c: "lookup (files w) (team_archive archives team) = Some (File c)" "parse_zip pf c = Inr ms"
        "extraction_error ms = None"
      and all: "\<forall>r. lookup (files w') (zone_dir cu (ARENA_ROOT w) zone_id @ r) =
                  zip_tree (extracted ms) r"
      by (auto simp: zone_staged_def)
    from all [rule_format, of "[]"] have "path_exists (files w') (zone_dir cu (ARENA_ROOT w) zone_id)"
      by (simp add: path_exists_def zip_tree_eq)
    with c all Some show ?thesis by (auto simp: zp)
  qed
qed

lemma str_nat_digits: "str_nat 0 = ''0''" "str_nat 1 = ''1''" "str_nat (Suc 0) = ''1''"
  by (simp_all add: str_nat.simps digit_char_def)

lemma staging_run:
  "fst (prepare_match example_utils (example_platform engine_missing) [''arch'']
     (construct_match_data example_args) staging_world) = None"
  by (simp add: prepare_match_def andthen_def on_files_def record_match_data_def
      get_mode_file_def write_text_def lookup_def store_def parent_def
      stage_zone_def get_zone_path_def get_zone_robot_file_path_def path_exists_def
      rmtree_def remove_tree_def path_mkdir_def ZipFile_def extractall_def place_def
      with_str_suffix_def joinpath_def path_parts_def
      name_def construct_match_data_def example_args_def example_utils_def example_platform_def
      example_zip_def staging_world_def str_nat_digits str_int_7 Let_def)

theorem C1_zones_staged_witness:
  "lookup (files (snd (prepare_match example_utils (example_platform engine_missing) [''arch'']
      (construct_match_data example_args) staging_world)))
      [''tmp'', ''ws'', ''zone-0'', ''lib'', ''util.py''] = Some (File ''x = 1'') \<and>
   lookup (files (snd (prepare_match example_utils (example_platform engine_missing) [''arch'']
      (construct_match_data example_args) staging_world)))
      [''tmp'', ''ws'', ''zone-1'', ''old.py''] = None \<and>
   \<not> path_exists (files (snd (prepare_match example_utils (example_platform engine_missing)
      [''arch''] (construct_match_data example_args) staging_world)))
      [''tmp'', ''ws'', ''zone-1'']"
proof -
  let ?cu = example_utils and ?pf = "example_platform engine_missing"
  let ?md = "construct_match_data example_args"
  let ?r = "prepare_match ?cu ?pf [''arch''] ?md staging_world"
  have names: "distinct (map (zone_dirname ?cu) [0..<NUM_ZONES ?cu])"
    by (simp add: example_utils_def upt_rec str_nat_digits)
  have len: "length (teams ?md) = NUM_ZONES ?cu"
    by (simp add: construct_match_data_def example_args_def example_utils_def)
  have wf: "no_orphans (files staging_world)"
    by (simp add: no_orphans_def staging_world_def lookup_def parent_def)
  have out: "\<not> prefix (ARENA_ROOT staging_world) [''arch'']"
    by (simp add: staging_world_def)
  have plain: "plain_teams (teams ?md)"
    by (simp add: plain_teams_def plain_name_def construct_match_data_def example_args_def)
  have run: "?r = (None, snd ?r)"
    using staging_run by (simp add: prod_eq_iff)
  have root: "ARENA_ROOT (snd ?r) = [''tmp'', ''ws'']"
    using stage_zones_root [OF prepare_match_None [OF run]] by (simp add: staging_world_def)
  have t0: "teams ?md ! 0 = Some ''ABC''" and t1: "teams ?md ! 1 = None"
    by (simp_all add: construct_match_data_def example_args_def)
  have zp: "get_zone_path ?cu (snd ?r) 0 = [''tmp'', ''ws'', ''zone-0'']"
    "get_zone_path ?cu (snd ?r) 1 = [''tmp'', ''ws'', ''zone-1'']"
    unfolding get_zone_path_eq root
    by (simp_all add: zone_dir_def example_utils_def str_nat_digits)
  have arch: "lookup (files staging_world) (team_archive [''arch''] ''ABC'') = Some (File ''ZIP-ABC'')"
    by (simp add: staging_world_def team_archive_def lookup_def)
  have nz: "0 < NUM_ZONES ?cu" "1 < NUM_ZONES ?cu"
    by (simp_all add: example_utils_def)
  note c0 = C1_zones_staged [OF names len wf out plain run nz(1), unfolded zp t0]
  note c1 = C1_zones_staged [OF names len wf out plain run nz(2), unfolded zp t1]
  from c0 arch
  have z0: "\<forall>r. lookup (files (snd ?r)) ([''tmp'', ''ws'', ''zone-0''] @ r) =
      zip_tree (extracted (projr (parse_zip ?pf ''ZIP-ABC''))) r"
    by auto
  from c1
  have z1: "\<not> path_exists (files (snd ?r)) [''tmp'', ''ws'', ''zone-1'']"
    by simp
  from c1
  have "\<forall>r. lookup (files (snd ?r)) ([''tmp'', ''ws'', ''zone-1''] @ r) = None"
    by simp
  from this [rule_format, of "[''old.py'']"]
  have stale: "lookup (files (snd ?r)) [''tmp'', ''ws'', ''zone-1'', ''old.py''] = None"
    by simp
  have tree: "zip_tree (extracted (projr (parse_zip ?pf ''ZIP-ABC''))) [''lib'', ''util.py''] =
      Some (File ''x = 1'')"
    by (simp_all add: zip_tree_def example_platform_def example_zip_def)
  from z0 [rule_format, of "[''lib'', ''util.py'']"] z1 stale tree
  show ?thesis by simp
qed


lemma writes_below_rootD:
  "writes_below_root f \<Longrightarrow> f w = (r, w') \<Longrightarrow>
     w' = w\<lparr>files := files w'\<rparr> \<and>
     (\<forall>p. \<not> strict_prefix (ARENA_ROOT w) p \<longrightarrow> lookup (files w') p = lookup (files w) p)"
  unfolding writes_below_root_def by blast

lemma world_files_only:
  "w' = w\<lparr>files := fs\<rparr> \<Longrightarrow>
     ARENA_ROOT w' = ARENA_ROOT w \<and> printed w' = printed w \<and> spawned w' = spawned w \<and>
     environ w' = environ w"
  by simp

lemma writes_below_root_andthen:
  assumes "writes_below_root f" "writes_below_root g"
  shows "writes_below_root (andthen f g)"
  unfolding writes_below_root_def
proof (intro allI impI)
  fix w r w'
  assume run: "andthen f g w = (r, w')"
  obtain r1 w1 where f: "f w = (r1, w1)" by force
  note a = writes_below_rootD [OF assms(1) f]
  show "w' = w\<lparr>files := files w'\<rparr> \<and>
        (\<forall>p. \<not> strict_prefix (ARENA_ROOT w) p \<longrightarrow> lookup (files w') p = lookup (files w) p)"
  proof (cases r1)
    case (Some e)
    with run f have "w' = w1" by (simp add: andthen_def)
    with a show ?thesis by simp
  next
    case None
    with run f have g: "g w1 = (r, w')" by (simp add: andthen_def)
    note b = writes_below_rootD [OF assms(2) g]
    have root: "ARENA_ROOT w1 = ARENA_ROOT w"
      using a world_files_only by metis
    have "w' = w\<lparr>files := files w'\<rparr>"
      using a b by (metis world.update_convs(1) world.surjective world.select_convs)
    with a b root show ?thesis by simp
  qed
qed

lemma writes_below_root_write:
  "writes_below_root (\<lambda>w. on_files (write_text (ARENA_ROOT w @ [x]) s) w)"
  unfolding writes_below_root_def
  by (auto simp: on_files_def strict_prefix_def split: sum.splits dest!: write_text_Inr)

lemma writes_below_root_stage_zones:
  "writes_below_root (stage_zones cu pf a k ts)"
  unfolding writes_below_root_def
proof (intro allI impI)
  fix w r w'
  assume run: "stage_zones cu pf a k ts w = (r, w')"
  note f = stage_zones_frame [OF run]
  have "\<not> prefix (zone_dir cu (ARENA_ROOT w) z) p" if "\<not> strict_prefix (ARENA_ROOT w) p" for p z
    using that by (auto simp: zone_dir_def prefix_def strict_prefix_def)
  with f show "w' = w\<lparr>files := files w'\<rparr> \<and>
      (\<forall>p. \<not> strict_prefix (ARENA_ROOT w) p \<longrightarrow> lookup (files w') p = lookup (files w) p)"
    by blast
qed

lemma writes_below_root_prepare_match:
  "writes_below_root (prepare_match cu pf a md)"
  unfolding prepare_match_def get_mode_file_def
  by (intro writes_below_root_andthen writes_below_root_write writes_below_root_stage_zones)
     (simp add: record_match_data_def [abs_def] writes_below_root_write)

lemma list_all_update:
  "list_all P al \<Longrightarrow> P (k, v) \<Longrightarrow> list_all P (AList.update k v al)"
  by (induction al) auto

lemma scope_start_fresh:
  assumes "scope_entered pf sfx w"
  shows "fresh_workspace (scope_start pf sfx w)"
proof -
  from assms have "list_all (\<lambda>(q, n). \<not> prefix (mkdtemp_name pf sfx) q) (files w)"
    by (simp add: scope_entered_def nothing_below_def)
  then have "list_all (\<lambda>(q, n). \<not> strict_prefix (mkdtemp_name pf sfx) q) (files w)"
    by (rule list.pred_mono_strong) (auto simp: strict_prefix_def)
  then have "list_all (\<lambda>(q, n). \<not> strict_prefix (mkdtemp_name pf sfx) q)
      (store (mkdtemp_name pf sfx) Dir (files w))"
    unfolding store_def by (rule list_all_update) simp
  then show ?thesis
    by (simp add: fresh_workspace_def scope_start_def is_dir_def lookup_store)
qed

lemma scope_start_fields:
  "ARENA_ROOT (scope_start pf sfx w) = mkdtemp_name pf sfx"
  "printed (scope_start pf sfx w) = printed w @ [using_line (mkdtemp_name pf sfx)]"
  "spawned (scope_start pf sfx w) = spawned w"
  "files (scope_start pf sfx w) = store (mkdtemp_name pf sfx) Dir (files w)"
  by (simp_all add: scope_start_def using_line_def)

lemma print_fatal_eq: "print_fatal m w = w\<lparr>printed := printed w @ [bold_red m]\<rparr>"
  by (simp add: print_fatal_def print_error_def py_print_def bold_red_def)


lemma run_match_not_found:
  assumes "engine pf (webots_argv cu) (environ w) (files w) = Inl FileNotFoundError"
  shows "run_match cu pf w =
     (Some (SystemExit 1),
      w\<lparr>spawned := spawned w @ [webots_argv cu],
        printed := printed w @
          [bold_red ''Could not find webots. Check that you have it installed and on your PATH'']\<rparr>)"
  using assms
  by (simp add: run_match_def check_call_def Let_def py_exit_def print_fatal_eq)





lemma main_entered:
  assumes "scope_entered pf (''match-'' @ str_int (match_num args)) w"
    and "prepare_match cu pf (archives_dir args) (construct_match_data args)
           (scope_start pf (''match-'' @ str_int (match_num args)) w) = (r1, wp)"
    and "r1 = None \<Longrightarrow> run_match cu pf wp = (Some e, wr)"
    and "r1 \<noteq> None \<Longrightarrow> r1 = Some e \<and> wr = wp"
  shows "main cu pf args w =
     (Some e, wr\<lparr>environ := (environ wr)(''ARENA_ROOT'' \<mapsto> path_str (ARENA_ROOT w)),
                 ARENA_ROOT := ARENA_ROOT w,
                 files := remove_tree (match_workspace pf args) (files wr)\<rparr>)"
proof -
  note unfolded = temporary_arena_root_entered [OF assms(1)]
  show ?thesis
    unfolding main_scope unfolded match_workspace_def
    using assms(2,3,4) by (cases r1) (auto simp: andthen_def)
qed

lemma prepare_match_fields:
  assumes "prepare_match cu pf a md w = (r, w')"
  shows "printed w' = printed w" "spawned w' = spawned w" "ARENA_ROOT w' = ARENA_ROOT w"
    "environ w' = environ w"
    "\<not> strict_prefix (ARENA_ROOT w) p \<Longrightarrow> lookup (files w') p = lookup (files w) p"
proof -
  note d = writes_below_rootD [OF writes_below_root_prepare_match assms]
  from d have eq: "w' = w\<lparr>files := files w'\<rparr>" by simp
  show "printed w' = printed w" "spawned w' = spawned w" "ARENA_ROOT w' = ARENA_ROOT w"
    "environ w' = environ w"
    using world_files_only [OF eq] by simp_all
  show "\<not> strict_prefix (ARENA_ROOT w) p \<Longrightarrow> lookup (files w') p = lookup (files w) p"
    using d by simp
qed


text \<open>
  C4: let the workspace be created and staging succeed, and let the launch of the engine
  raise \<open>FileNotFoundError\<close>.  Then \<open>main\<close> raises \<open>SystemExit(1)\<close>, its last
  line of output is the bold diagnostic naming webots, and every path of the file system
  reads as before \<open>main\<close>: in particular nothing under the archives directory (no
  team directory, no \<open>matches\<close>, no \<open>recordings\<close>) was created or modified.
\<close>

theorem C4_engine_not_found:
  assumes entered: "scope_entered pf (''match-'' @ str_int (match_num args)) w"
    and staged: "prepare_match cu pf (archives_dir args) (construct_match_data args)
                   (scope_start pf (''match-'' @ str_int (match_num args)) w) = (None, wp)"
    and missing: "engine pf (webots_argv cu) (environ wp) (files wp) = Inl FileNotFoundError"
  shows "fst (main cu pf args w) = Some (SystemExit 1) \<and>
         exit_status (fst (main cu pf args w)) \<noteq> 0 \<and>
         printed (snd (main cu pf args w)) =
           printed w @
             [using_line (match_workspace pf args),
              bold_red ''Could not find webots. Check that you have it installed and on your PATH''] \<and>
         (\<forall>p. lookup (files (snd (main cu pf args w))) p = lookup (files w) p)"
proof -
  let ?sfx = "''match-'' @ str_int (match_num args)"
  let ?tmp = "mkdtemp_name pf ?sfx"
  note pw = prepare_match_fields(1) [OF staged, unfolded scope_start_fields]
  note frame = prepare_match_fields(5) [OF staged, unfolded scope_start_fields]
  note m = main_entered [OF entered staged run_match_not_found [OF missing]]
  have "lookup (remove_tree ?tmp (files wp)) p = lookup (files w) p" for p
  proof (cases "prefix ?tmp p")
    case True
    from entered have "nothing_below (files w) ?tmp"
      unfolding scope_entered_def by blast
    from nothing_below_lookup [OF this True] True show ?thesis
      by (simp add: lookup_remove_tree)
  next
    case False
    then have "\<not> strict_prefix ?tmp p" "p \<noteq> ?tmp" by (auto simp: strict_prefix_def)
    with frame [of p] False show ?thesis by (simp add: lookup_remove_tree lookup_store)
  qed
  with m pw show ?thesis
    by (simp add: exit_status_def match_workspace_def)
qed

lemma example_staged:
  "fst (prepare_match example_utils (example_platform e) (archives_dir example_args)
     (construct_match_data example_args)
     (scope_start (example_platform e) (''match-'' @ str_int (match_num example_args))
        example_world)) = None"
  by (simp add: prepare_match_def andthen_def on_files_def record_match_data_def
      get_mode_file_def write_text_def lookup_def store_def parent_def
      stage_zone_def get_zone_path_def get_zone_robot_file_path_def path_exists_def
      rmtree_def remove_tree_def path_mkdir_def ZipFile_def extractall_def place_def
      with_str_suffix_def joinpath_def path_parts_def
      name_def construct_match_data_def example_args_def example_utils_def example_platform_def
      example_zip_def example_world_def str_nat_digits str_int_7 Let_def
      scope_start_def mkdtemp_name_def)





theorem C4_engine_not_found_witness:
  "fst (main example_utils (example_platform engine_missing) example_args example_world) =
     Some (SystemExit 1) \<and>
   printed (snd (main example_utils (example_platform engine_missing) example_args
                   example_world)) =
     [''Using '' @ [CHR 0x27] @ ''/tmp/tmpXmatch-7'' @ [CHR 0x27] @ '' as the arena'',
      bold_red ''Could not find webots. Check that you have it installed and on your PATH''] \<and>
   lookup (files (snd (main example_utils (example_platform engine_missing) example_args
                         example_world))) [''arch'', ''ABC.zip''] = Some (File ''ZIP-ABC'') \<and>
   lookup (files (snd (main example_utils (example_platform engine_missing) example_args
                         example_world))) [''arch'', ''ABC''] = None \<and>
   lookup (files (snd (main example_utils (example_platform engine_missing) example_args
                         example_world))) [''arch'', ''matches''] = None \<and>
   lookup (files (snd (main example_utils (example_platform engine_missing) example_args
                         example_world))) [''arch'', ''recordings''] = None"
proof -
  let ?cu = example_utils and ?pf = "example_platform engine_missing"
  let ?sfx = "''match-'' @ str_int (match_num example_args)"
  let ?r = "prepare_match ?cu ?pf (archives_dir example_args)
      (construct_match_data example_args) (scope_start ?pf ?sfx example_world)"
  have ul: "using_line (match_workspace ?pf example_args) =
      ''Using '' @ [CHR 0x27] @ ''/tmp/tmpXmatch-7'' @ [CHR 0x27] @ '' as the arena''"
    by (simp add: example_workspace using_line_def repr_str_def repr_char_def printable_def
        path_str_def Let_def)
  have p0: "printed example_world = []" by (simp add: example_world_def)
  have f0: "lookup (files example_world) [''arch'', ''ABC.zip''] = Some (File ''ZIP-ABC'')"
    "lookup (files example_world) [''arch'', ''ABC''] = None"
    "lookup (files example_world) [''arch'', ''matches''] = None"
    "lookup (files example_world) [''arch'', ''recordings''] = None"
    by (simp_all add: example_world_def lookup_def)
  have staged: "?r = (None, snd ?r)"
    using example_staged [of engine_missing] by (simp add: prod_eq_iff)
  have missing: "engine ?pf (webots_argv ?cu) (environ (snd ?r)) (files (snd ?r)) =
      Inl FileNotFoundError"
    by (simp add: example_platform_def engine_missing_def)
  note c4 = C4_engine_not_found [OF example_entered staged missing, unfolded ul]
  from c4 show ?thesis by (simp add: p0 f0)
qed

lemma fresh_marked_zone_clear:
  assumes "fresh_workspace w" "zone_dirname cu z \<noteq> mode_filename cu"
    "zone_dirname cu z \<noteq> match_record_filename cu"
  shows "zone_clear (files (marked cu md w)) (zone_dir cu (ARENA_ROOT w) z)"
proof -
  have "lookup (files w) (zone_dir cu (ARENA_ROOT w) z @ r) = None" for r
    by (rule fresh_workspace_lookup [OF assms(1)]) (simp add: zone_dir_def strict_prefix_def)
  with assms(2,3) show ?thesis
    by (auto simp: zone_clear_def lookup_marked zone_dir_def)
qed

text \<open>
  C9: staging is not atomic.  In a fresh workspace, with the names of the layout distinct,
  the archives outside the workspace and plain names for team identifiers, let the
  archives of the teams in the zones before \<open>k\<close> be readable in full and let staging the
  archive of the team in zone \<open>k\<close> raise \<open>e\<close> (the archive is missing or unreadable, or
  one of its members cannot be extracted).  Then \<open>prepare_match\<close> raises \<open>e\<close>, and in
  the file system it leaves behind the operating-mode marker holds \<open>comp\<close>, the match
  record is written, every zone before \<open>k\<close> is staged in full (empty zones absent, the
  others holding the tree of their archive), and the directory of zone \<open>k\<close> has been
  created: nothing written before the failure is rolled back.
\<close>

theorem C9_staging_not_atomic:
  assumes fresh: "fresh_workspace w"
    and layout: "layout_ok cu (length (teams match_data))"
    and out: "\<not> prefix (ARENA_ROOT w) archives"
    and plain: "plain_teams (teams match_data)"
    and k: "k < length (teams match_data)" "teams match_data ! k = Some team"
    and good: "\<forall>j<k. \<forall>t. teams match_data ! j = Some t \<longrightarrow>
        archive_failure pf (files w) (team_archive archives t) = None"
    and bad: "archive_failure pf (files w) (team_archive archives team) = Some e"
  shows "fst (prepare_match cu pf archives match_data w) = Some e \<and>
         lookup (files (snd (prepare_match cu pf archives match_data w))) (get_mode_file cu w) =
           Some (File ''comp\<newline>'') \<and>
         lookup (files (snd (prepare_match cu pf archives match_data w)))
             (ARENA_ROOT w @ [match_record_filename cu]) =
           Some (File (encode_match_data cu match_data)) \<and>
         (\<forall>j<k.
            (teams match_data ! j = None \<longrightarrow>
               (\<forall>r. lookup (files (snd (prepare_match cu pf archives match_data w)))
                      (zone_dir cu (ARENA_ROOT w) j @ r) = None)) \<and>
            (\<forall>t. teams match_data ! j = Some t \<longrightarrow>
               (\<exists>c ms. lookup (files w) (team_archive archives t) = Some (File c) \<and>
                  parse_zip pf c = Inr ms \<and> extraction_error ms = None \<and>
                  (\<forall>r. lookup (files (snd (prepare_match cu pf archives match_data w)))
                         (zone_dir cu (ARENA_ROOT w) j @ r) = zip_tree (extracted ms) r)))) \<and>
         lookup (files (snd (prepare_match cu pf archives match_data w)))
             (zone_dir cu (ARENA_ROOT w) k) = Some Dir"
proof -
  let ?root = "ARENA_ROOT w"
  let ?wm = "marked cu match_data w"
  let ?ts = "teams match_data"
  let ?Zk = "zone_dir cu ?root k"
  note lay = layout_ok_zones [OF layout]
  from prepare_match_fails_at [OF fresh layout out plain k good bad]
  obtain wk w' where wk: "stage_zones cu pf archives 0 (take k ?ts) ?wm = (None, wk)"
    and res: "prepare_match cu pf archives match_data w = (Some e, w')"
    and zk': "lookup (files w') ?Zk = Some Dir"
    and fr: "\<forall>p. \<not> prefix ?Zk p \<longrightarrow> lookup (files w') p = lookup (files wk) p"
    by blast
  let ?fs = "files (snd (prepare_match cu pf archives match_data w))"
  have fs: "lookup ?fs q = lookup (files wk) q" if "\<not> prefix ?Zk q" for q
    using fr that by (simp add: res)
  note fk = stage_zones_frame [OF wk]
  have lenk: "length (take k ?ts) = k" using k by simp
  have apart: "zone_dirname cu j \<noteq> zone_dirname cu k" if "j < k" for j
    using inj_onD [OF lay(1), of j k] that k by auto
  have keep: "lookup (files wk) (?root @ [x]) = lookup (files ?wm) (?root @ [x])"
    if "\<forall>j<k. zone_dirname cu j \<noteq> x" for x
  proof -
    have "\<forall>i<length (take k ?ts). \<not> prefix (zone_dir cu (ARENA_ROOT ?wm) (0 + i)) (?root @ [x])"
      using that by (auto simp: zone_dir_def prefix_def)
    with fk show ?thesis by blast
  qed
  have ne_mode: "zone_dirname cu j \<noteq> mode_filename cu" if "j \<le> k" for j
    using lay(2) [of j] that k(1) by simp
  have ne_rec: "zone_dirname cu j \<noteq> match_record_filename cu" if "j \<le> k" for j
    using lay(3) [of j] that k(1) by simp
  have file_out: "\<not> prefix ?Zk (?root @ [x])" if "zone_dirname cu k \<noteq> x" for x
    using that by (auto simp: zone_dir_def prefix_def)
  have "lookup (files wk) (?root @ [mode_filename cu]) = lookup (files ?wm) (?root @ [mode_filename cu])"
    by (rule keep) (use ne_mode in auto)
  then have mode: "lookup ?fs (get_mode_file cu w) = Some (File ''comp\<newline>'')"
    using ne_mode [of k] lay(4) fs [OF file_out [of "mode_filename cu"]]
    by (simp add: get_mode_file_def lookup_marked)
  have "lookup (files wk) (?root @ [match_record_filename cu]) =
      lookup (files ?wm) (?root @ [match_record_filename cu])"
    by (rule keep) (use ne_rec in auto)
  then have rec: "lookup ?fs (?root @ [match_record_filename cu]) =
      Some (File (encode_match_data cu match_data))"
    using ne_rec [of k] fs [OF file_out [of "match_record_filename cu"]]
    by (simp add: lookup_marked)
  have zones: "zone_staged cu pf archives (files w) ?root j (?ts ! j) ?fs" if j: "j < k" for j
  proof -
    have inj: "inj_on (zone_dirname cu) {0..<0 + length (take k ?ts)}"
      using lay(1) k by (auto intro: inj_on_subset)
    have clear: "\<forall>i<length (take k ?ts). zone_clear (files ?wm) (zone_dir cu (ARENA_ROOT ?wm) (0 + i))"
      using fresh_marked_zone_clear [OF fresh] ne_mode ne_rec by simp
    have out': "\<not> prefix (ARENA_ROOT ?wm) archives" using out by simp
    have j': "j < length (take k ?ts)" using j k by simp
    have plain': "plain_teams (take k ?ts)"
      using plain unfolding plain_teams_def list_all_iff by (auto dest: in_set_takeD)
    from stage_zones_staged [OF wk inj clear out' j' plain']
    have st: "zone_staged cu pf archives (files ?wm) ?root j (?ts ! j) (files wk)"
      using j by simp
    have same: "\<forall>r. lookup ?fs (zone_dir cu ?root j @ r) = lookup (files wk) (zone_dir cu ?root j @ r)"
      using fs zone_dir_apart [of cu k j ?root] apart [OF j] by (simp add: eq_commute)
    show ?thesis
      using zone_staged_transfer [OF st same, of "files w"] marked_archive [OF out] by simp
  qed
  have zones': "(?ts ! j = None \<longrightarrow> (\<forall>r. lookup ?fs (zone_dir cu ?root j @ r) = None)) \<and>
      (\<forall>t. ?ts ! j = Some t \<longrightarrow>
         (\<exists>c ms. lookup (files w) (team_archive archives t) = Some (File c) \<and>
            parse_zip pf c = Inr ms \<and> extraction_error ms = None \<and>
            (\<forall>r. lookup ?fs (zone_dir cu ?root j @ r) = zip_tree (extracted ms) r)))" if "j < k" for j
    using zones [OF that] unfolding zone_staged_def by (cases "?ts ! j") simp_all
  have zk: "lookup ?fs ?Zk = Some Dir" using zk' by (simp add: res)
  have first: "fst (prepare_match cu pf archives match_data w) = Some e" by (simp add: res)
  show ?thesis using first mode rec zones' zk by blast
qed

lemma digit_char_digit: "d < 10 \<Longrightarrow> digit_char d \<in> set ''0123456789''"
  unfolding digit_char_def by (rule nth_mem) simp

lemma str_nat_last: "str_nat n \<noteq> [] \<and> last (str_nat n) \<in> set ''0123456789''"
  by (subst (1 2) str_nat.simps)
     (use digit_char_digit [of n] digit_char_digit [of "n mod 10"] in auto)

lemma str_int_last: "str_int i \<noteq> [] \<and> last (str_int i) \<in> set ''0123456789''"
  using str_nat_last by (simp add: str_int_def)

lemma team_archive_not_workspace:
  "team_archive a t \<noteq> mkdtemp_name pf (''match-'' @ str_int i)"
proof
  assume "team_archive a t = mkdtemp_name pf (''match-'' @ str_int i)"
  then have "t @ ''.zip'' = ''tmp'' @ random_name pf @ ''match-'' @ str_int i"
    by (simp add: team_archive_def mkdtemp_name_def)
  then have "last (t @ ''.zip'') = last (''tmp'' @ random_name pf @ ''match-'' @ str_int i)"
    by simp
  then have "CHR ''p'' = last (str_int i)"
    using str_int_last [of i] by (simp del: append.simps add: last_append)
  with str_int_last [of i] show False by auto
qed

lemma scope_start_archive_failure:
  assumes out: "\<not> prefix (mkdtemp_name pf (''match-'' @ str_int i)) a"
  shows "archive_failure pf' (files (scope_start pf (''match-'' @ str_int i) w)) (team_archive a t) =
         archive_failure pf' (files w) (team_archive a t)"
proof (rule archive_failure_cong)
  fix q
  assume q: "prefix q (team_archive a t)"
  have "q \<noteq> mkdtemp_name pf (''match-'' @ str_int i)"
  proof
    assume eq: "q = mkdtemp_name pf (''match-'' @ str_int i)"
    from q have "q = team_archive a t \<or> prefix q a"
      by (simp add: team_archive_def)
    with eq out team_archive_not_workspace [of a t pf i] show False by auto
  qed
  then show "lookup (files (scope_start pf (''match-'' @ str_int i) w)) q = lookup (files w) q"
    by (simp add: scope_start_fields lookup_store)
qed

lemma main_bad_archive:
  assumes entered: "scope_entered pf (''match-'' @ str_int (match_num args)) w"
    and layout: "layout_ok cu (length (tla args))"
    and out: "\<not> prefix (match_workspace pf args) (archives_dir args)"
    and plain: "plain_teams (teams (construct_match_data args))"
    and k: "k < length (tla args)" "tla args ! k \<noteq> ''-''"
    and good: "\<forall>j<k. tla args ! j \<noteq> ''-'' \<longrightarrow>
        archive_failure pf (files w) (team_archive (archives_dir args) (tla args ! j)) = None"
    and bad: "archive_failure pf (files w) (team_archive (archives_dir args) (tla args ! k)) = Some e"
  shows "fst (main cu pf args w) = Some e \<and> spawned (snd (main cu pf args w)) = spawned w"
proof -
  let ?sfx = "''match-'' @ str_int (match_num args)"
  let ?ws = "scope_start pf ?sfx w"
  let ?md = "construct_match_data args"
  let ?a = "archives_dir args"
  note same = scope_start_archive_failure [OF out [unfolded match_workspace_def], of pf w]
  have teams: "length (teams ?md) = length (tla args)"
    "\<And>j. j < length (tla args) \<Longrightarrow>
       teams ?md ! j = (if tla args ! j \<noteq> ''-'' then Some (tla args ! j) else None)"
    by (simp_all add: construct_match_data_def)
  have fresh: "fresh_workspace ?ws" using scope_start_fresh [OF entered] .
  have layout': "layout_ok cu (length (teams ?md))" using layout teams(1) by simp
  have out': "\<not> prefix (ARENA_ROOT ?ws) ?a"
    using out by (simp add: scope_start_fields match_workspace_def)
  have k': "k < length (teams ?md)" "teams ?md ! k = Some (tla args ! k)"
    using k teams by simp_all
  have good': "\<forall>j<k. \<forall>t. teams ?md ! j = Some t \<longrightarrow>
      archive_failure pf (files ?ws) (team_archive ?a t) = None"
    unfolding same using good k(1) teams(2) by (auto split: if_splits)
  have bad': "archive_failure pf (files ?ws) (team_archive ?a (tla args ! k)) = Some e"
    unfolding same using bad .
  from prepare_match_fails_at [OF fresh layout' out' plain k' good' bad']
  obtain w1 where res: "prepare_match cu pf ?a ?md ?ws = (Some e, w1)" by blast
  have m: "main cu pf args w =
     (Some e, w1\<lparr>environ := (environ w1)(''ARENA_ROOT'' \<mapsto> path_str (ARENA_ROOT w)),
                 ARENA_ROOT := ARENA_ROOT w,
                 files := remove_tree (match_workspace pf args) (files w1)\<rparr>)"
    by (rule main_entered [OF entered res]) simp_all
  from prepare_match_fields(2) [OF res] have "spawned w1 = spawned w"
    by (simp add: scope_start_fields)
  with m show ?thesis by simp
qed

lemma archive_failure_missing:
  "lookup fs p = None \<Longrightarrow> \<not> below_file fs p \<Longrightarrow> archive_failure pf fs p = Some FileNotFoundError"
  by (simp add: archive_failure_def ZipFile_def missing_error_def)

lemma archive_failure_file:
  "lookup fs p = Some (File c) \<Longrightarrow>
     archive_failure pf fs p =
       (case parse_zip pf c of Inl e \<Rightarrow> Some e | Inr members \<Rightarrow> extraction_error members)"
  by (simp add: archive_failure_def ZipFile_def)

text \<open>
  C8, as amended: let the workspace be created, the names of the layout be distinct, the
  archives lie outside the workspace, the team identifiers be plain names and the archives
  of the teams before zone \<open>k\<close> be readable in full.  If staging the archive of the team
  in zone \<open>k\<close> raises an error \<open>e\<close>, then \<open>main\<close> raises \<open>e\<close>: the built-in
  \<open>FileNotFoundError\<close> when the archive does not exist, what \<open>zipfile\<close> raises at
  opening when the file cannot be opened as an archive, and what the first member that
  cannot be extracted raises otherwise; \<open>e\<close> is never named \<open>ArchiveNotFoundError\<close> or
  \<open>ArchiveExtractionError\<close>; the exit status is not zero and no process has been
  spawned: the engine is never launched.
\<close>

theorem C8_bad_archive_is_fatal:
  assumes entered: "scope_entered pf (''match-'' @ str_int (match_num args)) w"
    and layout: "layout_ok cu (length (tla args))"
    and out: "\<not> prefix (match_workspace pf args) (archives_dir args)"
    and plain: "plain_teams (teams (construct_match_data args))"
    and k: "k < length (tla args)" "tla args ! k \<noteq> ''-''"
    and good: "\<forall>j<k. tla args ! j \<noteq> ''-'' \<longrightarrow>
        archive_failure pf (files w) (team_archive (archives_dir args) (tla args ! j)) = None"
    and bad: "archive_failure pf (files w) (team_archive (archives_dir args) (tla args ! k)) = Some e"
    and error: "\<forall>c. e \<noteq> SystemExit c"
  shows "fst (main cu pf args w) = Some e \<and>
         (lookup (files w) (team_archive (archives_dir args) (tla args ! k)) = None \<and>
          \<not> below_file (files w) (team_archive (archives_dir args) (tla args ! k)) \<longrightarrow>
            e = FileNotFoundError) \<and>
         (\<forall>c e'. lookup (files w) (team_archive (archives_dir args) (tla args ! k)) = Some (File c) \<and>
            parse_zip pf c = Inl e' \<longrightarrow> e = e') \<and>
         (\<forall>c members.
            lookup (files w) (team_archive (archives_dir args) (tla args ! k)) = Some (File c) \<and>
            parse_zip pf c = Inr members \<longrightarrow> extraction_error members = Some e) \<and>
         exn_name e \<noteq> ''ArchiveNotFoundError'' \<and> exn_name e \<noteq> ''ArchiveExtractionError'' \<and>
         exit_status (fst (main cu pf args w)) \<noteq> 0 \<and>
         spawned (snd (main cu pf args w)) = spawned w"
proof -
  note m = main_bad_archive [OF entered layout out plain k good bad]
  have names: "exn_name e \<noteq> ''ArchiveNotFoundError''" "exn_name e \<noteq> ''ArchiveExtractionError''"
    by (cases e; simp add: exn_name_def)+
  have status: "exit_status (Some e) \<noteq> 0"
    using error by (cases e) (simp_all add: exit_status_def)
  have missing: "e = FileNotFoundError"
    if "lookup (files w) (team_archive (archives_dir args) (tla args ! k)) = None"
      "\<not> below_file (files w) (team_archive (archives_dir args) (tla args ! k))"
    using archive_failure_missing [OF that, of pf] bad by simp
  have isfile: "(case parse_zip pf c of Inl e' \<Rightarrow> Some e' | Inr members \<Rightarrow> extraction_error members) =
      Some e"
    if "lookup (files w) (team_archive (archives_dir args) (tla args ! k)) = Some (File c)" for c
    using archive_failure_file [OF that, of pf] bad by simp
  from m names status missing isfile show ?thesis by (auto split: sum.splits)
qed

lemma example_layout: "layout_ok example_utils 2"
  by (simp add: layout_ok_def example_utils_def upt_rec str_nat_digits)

lemma example_archives:
  "lookup (files example_world) (team_archive [''arch''] ''ABC'') = Some (File ''ZIP-ABC'')"
  "lookup (files example_world) (team_archive [''arch''] ''XYZ'') = None"
  "lookup (files example_world) (team_archive [''arch''] ''BAD'') = Some (File ''not a zip'')"
  "lookup (files example_world) (team_archive [''arch''] ''ENC'') = Some (File ''ZIP-ENC'')"
  "\<not> below_file (files example_world) (team_archive [''arch''] ''XYZ'')"
  by (simp_all add: example_world_def team_archive_def lookup_def below_file_def prefixes_snoc)

lemma example_archive_failure:
  "archive_failure (example_platform e) (files example_world) (team_archive [''arch''] ''ABC'') = None"
  "archive_failure (example_platform e) (files example_world) (team_archive [''arch''] ''XYZ'') =
     Some FileNotFoundError"
  "archive_failure (example_platform e) (files example_world) (team_archive [''arch''] ''BAD'') =
     Some BadZipFile"
  "archive_failure (example_platform e) (files example_world) (team_archive [''arch''] ''ENC'') =
     Some RuntimeError"
  by (simp_all add: archive_failure_missing archive_failure_file example_archives
      example_platform_def example_zip_def)

lemma bad_args:
  "match_num missing_args = match_num example_args" "archives_dir missing_args = [''arch'']"
  "tla missing_args = [''ABC'', ''XYZ'']"
  "match_num corrupt_args = match_num example_args" "archives_dir corrupt_args = [''arch'']"
  "tla corrupt_args = [''ABC'', ''BAD'']"
  "match_num encrypted_args = match_num example_args" "archives_dir encrypted_args = [''arch'']"
  "tla encrypted_args = [''ABC'', ''ENC'']"
  by (simp_all add: missing_args_def corrupt_args_def encrypted_args_def example_args_def)

lemma bad_args_workspace:
  "match_workspace (example_platform e) missing_args = [''tmp'', ''tmpXmatch-7'']"
  "match_workspace (example_platform e) corrupt_args = [''tmp'', ''tmpXmatch-7'']"
  "match_workspace (example_platform e) encrypted_args = [''tmp'', ''tmpXmatch-7'']"
  using example_workspace [of e] by (simp_all add: match_workspace_def bad_args)

lemma bad_args_entered:
  "scope_entered (example_platform e) (''match-'' @ str_int (match_num missing_args))
     example_world"
  "scope_entered (example_platform e) (''match-'' @ str_int (match_num corrupt_args))
     example_world"
  "scope_entered (example_platform e) (''match-'' @ str_int (match_num encrypted_args))
     example_world"
  unfolding bad_args by (rule example_entered)+

lemma bad_args_layout:
  "layout_ok example_utils (length (tla missing_args))"
  "layout_ok example_utils (length (tla corrupt_args))"
  "layout_ok example_utils (length (tla encrypted_args))"
  by (simp_all add: bad_args layout_ok_def example_utils_def upt_rec str_nat_digits)

lemma bad_args_outside:
  "\<not> prefix (match_workspace (example_platform e) missing_args) (archives_dir missing_args)"
  "\<not> prefix (match_workspace (example_platform e) corrupt_args) (archives_dir corrupt_args)"
  "\<not> prefix (match_workspace (example_platform e) encrypted_args) (archives_dir encrypted_args)"
  by (simp_all add: bad_args bad_args_workspace)

lemma bad_args_plain:
  "plain_teams (teams (construct_match_data missing_args))"
  "plain_teams (teams (construct_match_data corrupt_args))"
  "plain_teams (teams (construct_match_data encrypted_args))"
  by (simp_all add: construct_match_data_def bad_args plain_teams_def plain_name_def)

lemma bad_args_zone:
  "1 < length (tla missing_args)" "tla missing_args ! 1 \<noteq> ''-''"
  "1 < length (tla corrupt_args)" "tla corrupt_args ! 1 \<noteq> ''-''"
  "1 < length (tla encrypted_args)" "tla encrypted_args ! 1 \<noteq> ''-''"
  by (simp_all add: bad_args)

lemma bad_args_good:
  "\<forall>j<1. tla missing_args ! j \<noteq> ''-'' \<longrightarrow>
      archive_failure (example_platform e) (files example_world)
        (team_archive (archives_dir missing_args) (tla missing_args ! j)) = None"
  "\<forall>j<1. tla corrupt_args ! j \<noteq> ''-'' \<longrightarrow>
      archive_failure (example_platform e) (files example_world)
        (team_archive (archives_dir corrupt_args) (tla corrupt_args ! j)) = None"
  "\<forall>j<1. tla encrypted_args ! j \<noteq> ''-'' \<longrightarrow>
      archive_failure (example_platform e) (files example_world)
        (team_archive (archives_dir encrypted_args) (tla encrypted_args ! j)) = None"
  by (simp_all add: bad_args example_archive_failure)

lemma bad_args_bad:
  "archive_failure (example_platform e) (files example_world)
      (team_archive (archives_dir missing_args) (tla missing_args ! 1)) = Some FileNotFoundError"
  "archive_failure (example_platform e) (files example_world)
      (team_archive (archives_dir corrupt_args) (tla corrupt_args ! 1)) = Some BadZipFile"
  "archive_failure (example_platform e) (files example_world)
      (team_archive (archives_dir encrypted_args) (tla encrypted_args ! 1)) = Some RuntimeError"
  by (simp_all add: bad_args example_archive_failure)

text \<open>
  C8, as the claim states it, fails: the archive of team \<open>XYZ\<close> does not exist, and
  what \<open>main\<close> raises is \<open>FileNotFoundError\<close>, not an \<open>ArchiveNotFoundError\<close>.
\<close>

theorem C8_counterexample:
  "lookup (files example_world) (team_archive (archives_dir missing_args) ''XYZ'') = None \<and>
   tla missing_args ! 1 = ''XYZ'' \<and>
   fst (main example_utils (example_platform engine_missing) missing_args example_world) =
     Some FileNotFoundError \<and>
   exn_name FileNotFoundError \<noteq> ''ArchiveNotFoundError''"
  using main_bad_archive [OF bad_args_entered(1) bad_args_layout(1) bad_args_outside(1)
      bad_args_plain(1) bad_args_zone(1,2) bad_args_good(1) bad_args_bad(1), of engine_missing]
  by (simp add: bad_args example_archives exn_name_def)

theorem C8_bad_archive_is_fatal_witness:
  "fst (main example_utils (example_platform engine_missing) corrupt_args example_world) =
     Some BadZipFile \<and>
   spawned (snd (main example_utils (example_platform engine_missing) corrupt_args
                   example_world)) = [] \<and>
   fst (main example_utils (example_platform engine_missing) encrypted_args example_world) =
     Some RuntimeError \<and>
   spawned (snd (main example_utils (example_platform engine_missing) encrypted_args
                   example_world)) = []"
proof -
  have s0: "spawned example_world = []" by (simp add: example_world_def)
  from C8_bad_archive_is_fatal [OF bad_args_entered(2) bad_args_layout(2) bad_args_outside(2)
      bad_args_plain(2) bad_args_zone(3,4) bad_args_good(2) bad_args_bad(2), of engine_missing]
    C8_bad_archive_is_fatal [OF bad_args_entered(3) bad_args_layout(3) bad_args_outside(3)
      bad_args_plain(3) bad_args_zone(5,6) bad_args_good(3) bad_args_bad(3), of engine_missing]
  show ?thesis by (simp add: s0)
qed

lemma staged_start_fresh: "fresh_workspace staged_start"
  unfolding staged_start_def by (rule scope_start_fresh [OF example_entered])

lemma staged_start_root: "ARENA_ROOT staged_start = [''tmp'', ''tmpXmatch-7'']"
  by (simp add: staged_start_def scope_start_fields mkdtemp_name_def example_platform_def
      example_args_def str_int_7)

lemma staged_start_archives:
  "lookup (files staged_start) (team_archive [''arch''] ''ABC'') = Some (File ''ZIP-ABC'')"
  using example_archives
  by (simp_all add: staged_start_def scope_start_fields lookup_store team_archive_def
      mkdtemp_name_def example_platform_def)

lemma staged_start_archive_failure:
  "archive_failure pf (files staged_start) (team_archive [''arch''] t) =
     archive_failure pf (files example_world) (team_archive [''arch''] t)"
  unfolding staged_start_def
  by (rule scope_start_archive_failure) (simp add: mkdtemp_name_def example_platform_def)

lemma example_parse:
  "parse_zip (example_platform e) ''ZIP-ABC'' =
     Inr [([''robot.py''], Extracts (File ''print(1)'')), ([''lib''], Extracts Dir),
          ([''lib'', ''util.py''], Extracts (File ''x = 1''))]"
  by (simp add: example_platform_def example_zip_def)

lemma bad_teams:
  "teams (construct_match_data missing_args) = [Some ''ABC'', Some ''XYZ'']"
  "teams (construct_match_data encrypted_args) = [Some ''ABC'', Some ''ENC'']"
  by (simp_all add: construct_match_data_def bad_args)

theorem C9_staging_not_atomic_witness:
  "fst (prepare_match example_utils (example_platform engine_missing) [''arch'']
          (construct_match_data missing_args) staged_start) = Some FileNotFoundError \<and>
   lookup (files (snd (prepare_match example_utils (example_platform engine_missing) [''arch'']
          (construct_match_data missing_args) staged_start)))
     [''tmp'', ''tmpXmatch-7'', ''robot_mode.txt''] = Some (File ''comp\<newline>'') \<and>
   lookup (files (snd (prepare_match example_utils (example_platform engine_missing) [''arch'']
          (construct_match_data missing_args) staged_start)))
     [''tmp'', ''tmpXmatch-7'', ''match.json''] = Some (File ''match 7'') \<and>
   lookup (files (snd (prepare_match example_utils (example_platform engine_missing) [''arch'']
          (construct_match_data missing_args) staged_start)))
     [''tmp'', ''tmpXmatch-7'', ''zone-0'', ''robot.py''] = Some (File ''print(1)'') \<and>
   lookup (files (snd (prepare_match example_utils (example_platform engine_missing) [''arch'']
          (construct_match_data missing_args) staged_start)))
     [''tmp'', ''tmpXmatch-7'', ''zone-1''] = Some Dir \<and>
   fst (prepare_match example_utils (example_platform engine_missing) [''arch'']
          (construct_match_data encrypted_args) staged_start) = Some RuntimeError \<and>
   lookup (files (snd (prepare_match example_utils (example_platform engine_missing) [''arch'']
          (construct_match_data encrypted_args) staged_start)))
     [''tmp'', ''tmpXmatch-7'', ''zone-1''] = Some Dir"
proof -
  let ?cu = example_utils and ?pf = "example_platform engine_missing"
  let ?md = "construct_match_data missing_args"
  let ?md' = "construct_match_data encrypted_args"
  let ?fs = "files (snd (prepare_match ?cu ?pf [''arch''] ?md staged_start))"
  have layout: "layout_ok ?cu (length (teams ?md))" "layout_ok ?cu (length (teams ?md'))"
    by (simp_all add: bad_teams layout_ok_def example_utils_def upt_rec str_nat_digits)
  have out: "\<not> prefix (ARENA_ROOT staged_start) [''arch'']"
    by (simp add: staged_start_root)
  have plain: "plain_teams (teams ?md)" "plain_teams (teams ?md')"
    by (simp_all add: bad_teams plain_teams_def plain_name_def)
  have k: "1 < length (teams ?md)" "teams ?md ! 1 = Some ''XYZ''"
    and k': "1 < length (teams ?md')" "teams ?md' ! 1 = Some ''ENC''"
    by (simp_all add: bad_teams)
  have good: "\<forall>j<1. \<forall>t. teams ?md ! j = Some t \<longrightarrow>
      archive_failure ?pf (files staged_start) (team_archive [''arch''] t) = None"
    and good': "\<forall>j<1. \<forall>t. teams ?md' ! j = Some t \<longrightarrow>
      archive_failure ?pf (files staged_start) (team_archive [''arch''] t) = None"
    by (simp_all add: bad_teams staged_start_archive_failure example_archive_failure)
  have bad: "archive_failure ?pf (files staged_start) (team_archive [''arch''] ''XYZ'') =
      Some FileNotFoundError"
    and bad': "archive_failure ?pf (files staged_start) (team_archive [''arch''] ''ENC'') =
      Some RuntimeError"
    by (simp_all add: staged_start_archive_failure example_archive_failure)
  have paths: "get_mode_file ?cu staged_start = [''tmp'', ''tmpXmatch-7'', ''robot_mode.txt'']"
    "ARENA_ROOT staged_start @ [match_record_filename ?cu] = [''tmp'', ''tmpXmatch-7'', ''match.json'']"
    "zone_dir ?cu (ARENA_ROOT staged_start) 0 = [''tmp'', ''tmpXmatch-7'', ''zone-0'']"
    "zone_dir ?cu (ARENA_ROOT staged_start) 1 = [''tmp'', ''tmpXmatch-7'', ''zone-1'']"
    "encode_match_data ?cu ?md = ''match 7''"
    by (simp_all add: get_mode_file_def zone_dir_def staged_start_root example_utils_def
        str_nat_digits construct_match_data_def bad_args example_args_def str_int_7)
  note c9 = C9_staging_not_atomic [OF staged_start_fresh layout(1) out plain(1) k good bad,
      unfolded paths]
  note c9' = C9_staging_not_atomic [OF staged_start_fresh layout(2) out plain(2) k' good' bad',
      unfolded paths]
  from c9 have z0: "\<forall>t. teams ?md ! 0 = Some t \<longrightarrow>
      (\<exists>c ms. lookup (files staged_start) (team_archive [''arch''] t) = Some (File c) \<and>
         parse_zip ?pf c = Inr ms \<and> extraction_error ms = None \<and>
         (\<forall>r. lookup ?fs (zone_dir ?cu (ARENA_ROOT staged_start) 0 @ r) =
                zip_tree (extracted ms) r))"
    by simp
  then have "\<forall>r. lookup ?fs ([''tmp'', ''tmpXmatch-7'', ''zone-0''] @ r) =
      zip_tree [([''robot.py''], File ''print(1)''), ([''lib''], Dir),
                ([''lib'', ''util.py''], File ''x = 1'')] r"
    by (simp add: bad_teams staged_start_archives example_parse paths)
  from this [rule_format, of "[''robot.py'']"]
  have robot: "lookup ?fs [''tmp'', ''tmpXmatch-7'', ''zone-0'', ''robot.py''] = Some (File ''print(1)'')"
    by (simp add: zip_tree_def)
  from c9 c9' robot show ?thesis by simp
qed

lemma str_nat_small:
  "n < 10 \<Longrightarrow> str_nat n = [digit_char n]"
  "10 \<le> n \<Longrightarrow> n < 100 \<Longrightarrow> str_nat n = [digit_char (n div 10), digit_char (n mod 10)]"
  "100 \<le> n \<Longrightarrow> n < 1000 \<Longrightarrow>
     str_nat n = [digit_char (n div 100), digit_char (n div 10 mod 10), digit_char (n mod 10)]"
proof -
  show 1: "n < 10 \<Longrightarrow> str_nat n = [digit_char n]" for n
    by (subst str_nat.simps) simp
  show 2: "10 \<le> n \<Longrightarrow> n < 100 \<Longrightarrow> str_nat n = [digit_char (n div 10), digit_char (n mod 10)]" for n
    by (subst str_nat.simps) (simp add: 1)
  show "100 \<le> n \<Longrightarrow> n < 1000 \<Longrightarrow>
     str_nat n = [digit_char (n div 100), digit_char (n div 10 mod 10), digit_char (n mod 10)]"
    by (subst str_nat.simps) (simp add: 2 div_mult2_eq [symmetric])
qed

lemma str_nat_long: "1000 \<le> n \<Longrightarrow> 3 \<le> length (str_nat n)"
proof -
  assume n: "1000 \<le> n"
  then have "100 \<le> n div 10" by simp
  then have "10 \<le> n div 10 div 10" by simp
  have "str_nat n = str_nat (n div 10 div 10) @ [digit_char (n div 10 mod 10), digit_char (n mod 10)]"
    using n \<open>100 \<le> n div 10\<close>
    by (subst str_nat.simps, simp, subst str_nat.simps, simp)
  moreover have "str_nat (n div 10 div 10) \<noteq> []"
    using str_nat_last by blast
  ultimately show ?thesis by (cases "str_nat (n div 10 div 10)") simp_all
qed

lemma format_is_zero_padded:
  assumes "0 \<le> n"
  shows "format_0_right_3 n = zero_padded_3 n"
proof -
  let ?m = "nat n"
  have s: "str_int n = str_nat ?m" using assms by (simp add: str_int_def)
  have d0: "digit_char 0 = CHR ''0''" by (simp add: digit_char_def)
  consider "?m < 10" | "10 \<le> ?m" "?m < 100" | "100 \<le> ?m" "?m < 1000" | "1000 \<le> ?m"
    by linarith
  then show ?thesis
  proof cases
    case 1
    then have "n < 1000" by simp
    with 1 show ?thesis
      by (simp add: format_0_right_3_def zero_padded_3_def s str_nat_small d0 numeral_3_eq_3)
  next
    case 2
    then have "n < 1000" by simp
    with 2 show ?thesis
      by (simp add: format_0_right_3_def zero_padded_3_def s str_nat_small d0 numeral_3_eq_3)
  next
    case 3
    then have "n < 1000" by simp
    with 3 show ?thesis
      by (simp add: format_0_right_3_def zero_padded_3_def s str_nat_small)
  next
    case 4
    then have "\<not> n < 1000" by simp
    with str_nat_long [OF 4] show ?thesis
      by (simp add: format_0_right_3_def zero_padded_3_def s)
  qed
qed

lemma path_mkdir_exist_ok_run:
  assumes "lookup fs p = Some Dir \<or> (lookup fs p = None \<and> lookup fs (parent p) = Some Dir)"
  shows "\<exists>fs'. path_mkdir_exist_ok p fs = Inr fs' \<and>
           (\<forall>q. lookup fs' q = (if q = p then Some Dir else lookup fs q)) \<and>
           (lookup fs p = Some Dir \<longrightarrow> fs' = fs)"
  using assms
  by (auto simp: path_mkdir_exist_ok_def path_mkdir_def is_dir_def lookup_store)

lemma path_mkdir_exist_ok_Inr:
  "path_mkdir_exist_ok p fs = Inr fs' \<Longrightarrow>
     (lookup fs p = Some Dir \<or> (lookup fs p = None \<and> lookup fs (parent p) = Some Dir)) \<and>
     (\<forall>q. lookup fs' q = (if q = p then Some Dir else lookup fs q))"
  by (auto simp: path_mkdir_exist_ok_def path_mkdir_def is_dir_def lookup_store
      split: option.splits node.splits if_splits)

lemma shutil_copy_file:
  assumes "lookup fs src = Some (File c)" "lookup fs dst \<noteq> Some Dir" "src \<noteq> dst"
    "lookup fs (parent dst) = Some Dir"
  shows "shutil_copy src dst fs = Inr (store dst (File c) fs)"
  using assms
  by (auto simp: shutil_copy_def is_dir_def path_exists_def read_bytes_def write_text_def Let_def
      split: option.splits node.splits)

lemma shutil_copy_Inr_file:
  assumes "shutil_copy src dst fs = Inr fs'" "lookup fs dst \<noteq> Some Dir"
  shows "\<exists>c. lookup fs src = Some (File c) \<and> src \<noteq> dst \<and> fs' = store dst (File c) fs"
  using assms
  by (auto simp: shutil_copy_def is_dir_def path_exists_def read_bytes_def write_text_def Let_def
      split: option.splits node.splits if_splits)

lemma store_same: "lookup fs p = Some n \<Longrightarrow> store p n fs = fs"
  by (simp add: lookup_def store_def update_triv)

lemma archive_match_file_eq:
  "archive_match_file cu archives md w =
     andthen (on_files (path_mkdir_exist_ok (archives @ [''matches'']))) 
       (\<lambda>w. on_files (shutil_copy (get_match_file cu w)
                (archives @ [''matches'', format_0_right_3 (match_number md) @ ''.yaml''])) w) w"
  by (simp add: archive_match_file_def Let_def)

lemma get_match_file_files [simp]: "get_match_file cu (w\<lparr>files := fs\<rparr>) = get_match_file cu w"
  by (simp add: get_match_file_def)

lemma archive_match_file_run:
  assumes n: "0 \<le> match_number md"
    and src: "lookup (files w) (get_match_file cu w) = Some (File c)"
    and dir: "lookup (files w) (archives @ [''matches'']) = Some Dir \<or>
              (lookup (files w) (archives @ [''matches'']) = None \<and>
               lookup (files w) archives = Some Dir)"
    and dst: "lookup (files w) (completed_match_file archives (match_number md)) \<noteq> Some Dir"
    and ne: "get_match_file cu w \<noteq> completed_match_file archives (match_number md)"
  shows "\<exists>fs'. archive_match_file cu archives md w = (None, w\<lparr>files := fs'\<rparr>) \<and>
           (\<forall>q. lookup fs' q =
              (if q = completed_match_file archives (match_number md) then Some (File c)
               else if q = archives @ [''matches''] then Some Dir
               else lookup (files w) q)) \<and>
           (lookup (files w) (archives @ [''matches'']) = Some Dir \<and>
            lookup (files w) (completed_match_file archives (match_number md)) = Some (File c)
              \<longrightarrow> fs' = files w)"
proof -
  let ?m = "archives @ [''matches'']"
  let ?d = "completed_match_file archives (match_number md)"
  have d: "archives @ [''matches'', format_0_right_3 (match_number md) @ ''.yaml''] = ?d"
    by (simp add: completed_match_file_def format_is_zero_padded [OF n])
  have pd: "parent ?d = ?m" "?d \<noteq> ?m"
    by (simp_all add: completed_match_file_def parent_def butlast_append)
  from dir have "lookup (files w) ?m = Some Dir \<or>
      (lookup (files w) ?m = None \<and> lookup (files w) (parent ?m) = Some Dir)"
    by (simp add: parent_def)
  from path_mkdir_exist_ok_run [OF this] obtain fs1 where
    mk: "path_mkdir_exist_ok ?m (files w) = Inr fs1" and
    fs1: "\<forall>q. lookup fs1 q = (if q = ?m then Some Dir else lookup (files w) q)" and
    triv: "lookup (files w) ?m = Some Dir \<longrightarrow> fs1 = files w"
    by blast
  have srcm: "get_match_file cu w \<noteq> ?m" using src dir by auto
  have cp: "shutil_copy (get_match_file cu w) ?d fs1 = Inr (store ?d (File c) fs1)"
    by (rule shutil_copy_file) (use fs1 src dst ne srcm pd in auto)
  have run: "archive_match_file cu archives md w = (None, w\<lparr>files := store ?d (File c) fs1\<rparr>)"
    unfolding archive_match_file_eq d
    by (simp add: andthen_def on_files_def mk cp)
  have look: "\<forall>q. lookup (store ?d (File c) fs1) q =
      (if q = ?d then Some (File c) else if q = ?m then Some Dir else lookup (files w) q)"
    using fs1 by (simp add: lookup_store)
  have "store ?d (File c) fs1 = files w"
    if "lookup (files w) ?m = Some Dir" "lookup (files w) ?d = Some (File c)"
    using that triv by (simp add: store_same)
  with run look show ?thesis by blast
qed

lemma archive_match_file_None:
  assumes n: "0 \<le> match_number md"
    and run: "archive_match_file cu archives md w = (None, w1)"
    and dst: "lookup (files w) (completed_match_file archives (match_number md)) \<noteq> Some Dir"
  shows "\<exists>c. lookup (files w) (get_match_file cu w) = Some (File c) \<and>
           (lookup (files w) (archives @ [''matches'']) = Some Dir \<or>
              (lookup (files w) (archives @ [''matches'']) = None \<and>
               lookup (files w) archives = Some Dir)) \<and>
           get_match_file cu w \<noteq> completed_match_file archives (match_number md)"
proof -
  let ?m = "archives @ [''matches'']"
  let ?d = "completed_match_file archives (match_number md)"
  have d: "archives @ [''matches'', format_0_right_3 (match_number md) @ ''.yaml''] = ?d"
    by (simp add: completed_match_file_def format_is_zero_padded [OF n])
  have pd: "?d \<noteq> ?m" by (simp add: completed_match_file_def)
  from run obtain fs1 fs2 where
    mk: "path_mkdir_exist_ok ?m (files w) = Inr fs1" and
    cp: "shutil_copy (get_match_file cu w) ?d fs1 = Inr fs2"
    unfolding archive_match_file_eq d andthen_None on_files_None by auto
  note m = path_mkdir_exist_ok_Inr [OF mk]
  have "lookup fs1 ?d \<noteq> Some Dir" using m dst pd by simp
  from shutil_copy_Inr_file [OF cp this] obtain c where
    c: "lookup fs1 (get_match_file cu w) = Some (File c)" "get_match_file cu w \<noteq> ?d" by blast
  then have "lookup (files w) (get_match_file cu w) = Some (File c)"
    using m by (auto split: if_splits)
  with m c(2) show ?thesis by (auto simp: parent_def)
qed

text \<open>
  C6: for a match number that is not negative, let the engine's match file be a regular
  file with text \<open>c\<close>, and let \<open>matches/\<close> be a directory of the archives directory or
  be absent from it (the destination being no directory and not the match file itself).
  Then \<open>archive_match_file\<close> returns, \<open>matches/\<close> is a directory, and the file
  \<open>{archives_dir}/matches/{number}.yaml\<close> holds \<open>c\<close>, where the number is written in
  decimal and padded with zeros to three digits, which is what the format \<open>0>3\<close> of the
  code yields; match 7 gives \<open>matches/007.yaml\<close>.
\<close>

theorem C6_match_file_archived:
  assumes n: "0 \<le> match_number match_data"
    and src: "lookup (files w) (get_match_file cu w) = Some (File c)"
    and dir: "lookup (files w) (archives @ [''matches'']) = Some Dir \<or>
              (lookup (files w) (archives @ [''matches'']) = None \<and>
               lookup (files w) archives = Some Dir)"
    and dst: "lookup (files w) (completed_match_file archives (match_number match_data)) \<noteq> Some Dir"
    and ne: "get_match_file cu w \<noteq> completed_match_file archives (match_number match_data)"
  shows "fst (archive_match_file cu archives match_data w) = None \<and>
         lookup (files (snd (archive_match_file cu archives match_data w)))
           (completed_match_file archives (match_number match_data)) = Some (File c) \<and>
         is_dir (files (snd (archive_match_file cu archives match_data w)))
           (archives @ [''matches'']) \<and>
         completed_match_file archives (match_number match_data) =
           archives @ [''matches'', format_0_right_3 (match_number match_data) @ ''.yaml''] \<and>
         completed_match_file archives 7 = archives @ [''matches'', ''007.yaml'']"
proof -
  from archive_match_file_run [OF n src dir dst ne] obtain fs' where
    run: "archive_match_file cu archives match_data w = (None, w\<lparr>files := fs'\<rparr>)" and
    look: "\<forall>q. lookup fs' q =
              (if q = completed_match_file archives (match_number match_data) then Some (File c)
               else if q = archives @ [''matches''] then Some Dir
               else lookup (files w) q)"
    by blast
  have "completed_match_file archives (match_number match_data) \<noteq> archives @ [''matches'']"
    by (simp add: completed_match_file_def)
  moreover have "completed_match_file archives 7 = archives @ [''matches'', ''007.yaml'']"
    by (simp add: completed_match_file_def zero_padded_3_def digit_char_def)
  moreover have "completed_match_file archives (match_number match_data) =
           archives @ [''matches'', format_0_right_3 (match_number match_data) @ ''.yaml'']"
    by (simp add: completed_match_file_def format_is_zero_padded [OF n])
  ultimately show ?thesis using run look by (simp add: is_dir_def)
qed

text \<open>
  C7: let a first run of \<open>archive_match_file\<close> for a match number succeed, from a match
  file with text \<open>c\<close>.  A second run for the same number, started where \<open>matches/\<close>
  and the archived file are as the first run left them and the match file again holds
  \<open>c\<close>, returns and leaves the process exactly as it found it: the archived file is
  overwritten with the same text and no other entry is created.
\<close>

theorem C7_rerun_idempotent:
  assumes n: "0 \<le> match_number match_data"
    and first: "archive_match_file cu archives match_data w = (None, w1)"
    and dst: "lookup (files w) (completed_match_file archives (match_number match_data)) \<noteq> Some Dir"
    and src1: "lookup (files w) (get_match_file cu w) = Some (File c)"
    and same1: "lookup (files w2) (archives @ [''matches'']) =
                lookup (files w1) (archives @ [''matches''])"
    and same2: "lookup (files w2) (completed_match_file archives (match_number match_data)) =
                lookup (files w1) (completed_match_file archives (match_number match_data))"
    and src2: "lookup (files w2) (get_match_file cu w2) = Some (File c)"
    and ne2: "get_match_file cu w2 \<noteq> completed_match_file archives (match_number match_data)"
  shows "archive_match_file cu archives match_data w2 = (None, w2) \<and>
         lookup (files w2) (completed_match_file archives (match_number match_data)) =
           Some (File c)"
proof -
  let ?m = "archives @ [''matches'']"
  let ?d = "completed_match_file archives (match_number match_data)"
  from archive_match_file_None [OF n first dst] src1
  have dir: "lookup (files w) ?m = Some Dir \<or>
        (lookup (files w) ?m = None \<and> lookup (files w) archives = Some Dir)"
    and ne: "get_match_file cu w \<noteq> ?d"
    by auto
  from archive_match_file_run [OF n src1 dir dst ne] obtain fs' where
    run: "archive_match_file cu archives match_data w = (None, w\<lparr>files := fs'\<rparr>)" and
    look: "\<forall>q. lookup fs' q =
              (if q = ?d then Some (File c) else if q = ?m then Some Dir else lookup (files w) q)"
    by blast
  from run first have "files w1 = fs'" by auto
  with look have w1: "lookup (files w1) ?d = Some (File c)" "lookup (files w1) ?m = Some Dir"
    by (simp_all add: completed_match_file_def)
  have dir2: "lookup (files w2) ?m = Some Dir \<or>
        (lookup (files w2) ?m = None \<and> lookup (files w2) archives = Some Dir)"
    using w1 same1 by simp
  have dst2: "lookup (files w2) ?d \<noteq> Some Dir" using w1 same2 by simp
  from archive_match_file_run [OF n src2 dir2 dst2 ne2] w1 same1 same2
  have "archive_match_file cu archives match_data w2 = (None, w2\<lparr>files := files w2\<rparr>)"
    by auto
  with w1 same2 show ?thesis by simp
qed

lemma collation_facts:
  "match_number (construct_match_data example_args) = 7"
  "get_match_file example_utils collation_world = [''ws'', ''match.json'']"
  "lookup (files collation_world) [''ws'', ''match.json''] = Some (File ''SCORES'')"
  "lookup (files collation_world) [''arch''] = Some Dir"
  "lookup (files collation_world) [''arch'', ''matches''] = None"
  "completed_match_file [''arch''] 7 = [''arch'', ''matches'', ''007.yaml'']"
  "lookup (files collation_world) [''arch'', ''matches'', ''007.yaml''] = None"
  by (simp_all add: construct_match_data_def example_args_def get_match_file_def
      example_utils_def collation_world_def lookup_def completed_match_file_def
      zero_padded_3_def digit_char_def)

theorem C6_match_file_archived_witness:
  "fst (archive_match_file example_utils [''arch''] (construct_match_data example_args)
          collation_world) = None \<and>
   lookup (files (snd (archive_match_file example_utils [''arch'']
                         (construct_match_data example_args) collation_world)))
     [''arch'', ''matches'', ''007.yaml''] = Some (File ''SCORES'')"
proof -
  let ?md = "construct_match_data example_args"
  have n: "0 \<le> match_number ?md" by (simp add: collation_facts)
  have src: "lookup (files collation_world) (get_match_file example_utils collation_world) =
      Some (File ''SCORES'')"
    by (simp add: collation_facts)
  have dir: "lookup (files collation_world) ([''arch''] @ [''matches'']) = Some Dir \<or>
      (lookup (files collation_world) ([''arch''] @ [''matches'']) = None \<and>
       lookup (files collation_world) [''arch''] = Some Dir)"
    by (simp add: collation_facts)
  have dst: "lookup (files collation_world) (completed_match_file [''arch''] (match_number ?md)) \<noteq>
      Some Dir"
    by (simp add: collation_facts)
  have ne: "get_match_file example_utils collation_world \<noteq>
      completed_match_file [''arch''] (match_number ?md)"
    by (simp add: collation_facts)
  from C6_match_file_archived [OF n src dir dst ne]
  show ?thesis by (simp add: collation_facts)
qed

theorem C7_rerun_idempotent_witness:
  "archive_match_file example_utils [''arch''] (construct_match_data example_args)
     (snd (archive_match_file example_utils [''arch''] (construct_match_data example_args)
             collation_world)) =
   (None, snd (archive_match_file example_utils [''arch''] (construct_match_data example_args)
                 collation_world)) \<and>
   lookup (files (snd (archive_match_file example_utils [''arch'']
                         (construct_match_data example_args) collation_world)))
     [''arch'', ''matches'', ''007.yaml''] = Some (File ''SCORES'')"
proof -
  let ?md = "construct_match_data example_args"
  let ?r = "archive_match_file example_utils [''arch''] ?md collation_world"
  have n: "0 \<le> match_number ?md" by (simp add: collation_facts)
  have src: "lookup (files collation_world) (get_match_file example_utils collation_world) =
      Some (File ''SCORES'')"
    by (simp add: collation_facts)
  have dir: "lookup (files collation_world) ([''arch''] @ [''matches'']) = Some Dir \<or>
      (lookup (files collation_world) ([''arch''] @ [''matches'']) = None \<and>
       lookup (files collation_world) [''arch''] = Some Dir)"
    by (simp add: collation_facts)
  have dst: "lookup (files collation_world) (completed_match_file [''arch''] (match_number ?md)) \<noteq>
      Some Dir"
    by (simp add: collation_facts)
  have ne: "get_match_file example_utils collation_world \<noteq>
      completed_match_file [''arch''] (match_number ?md)"
    by (simp add: collation_facts)
  from archive_match_file_run [OF n src dir dst ne] obtain fs' where
    run: "?r = (None, collation_world\<lparr>files := fs'\<rparr>)" and
    look: "\<forall>q. lookup fs' q =
              (if q = completed_match_file [''arch''] (match_number ?md) then Some (File ''SCORES'')
               else if q = [''arch''] @ [''matches''] then Some Dir
               else lookup (files collation_world) q)"
    by blast
  have first: "?r = (None, snd ?r)" using run by simp
  have gm: "get_match_file example_utils (snd ?r) = [''ws'', ''match.json'']"
    using run by (simp add: collation_facts)
  have src2: "lookup (files (snd ?r)) (get_match_file example_utils (snd ?r)) =
      Some (File ''SCORES'')"
    unfolding gm using run look by (simp add: collation_facts)
  have ne2: "get_match_file example_utils (snd ?r) \<noteq>
      completed_match_file [''arch''] (match_number ?md)"
    unfolding gm by (simp add: collation_facts)
  from C7_rerun_idempotent [OF n first dst src refl refl src2 ne2]
  show ?thesis by (simp add: collation_facts)
qed

subsection \<open>Archiving the recordings\<close>

lemma fnmatch_star_end: "fnmatch ''*'' s"
proof -
  have "fnmatch ''*'' s = list_ex (\<lambda>k. fnmatch [] (drop k s)) [0..<Suc (length s)]"
    by (subst fnmatch.simps) simp
  moreover have "length s \<in> set [0..<Suc (length s)]" by simp
  moreover have "fnmatch [] (drop (length s) s)" by simp
  ultimately show ?thesis unfolding list_ex_iff by blast
qed

lemma fnmatch_literal:
  "c \<noteq> CHR ''*'' \<Longrightarrow> c \<noteq> CHR ''?'' \<Longrightarrow> c \<noteq> CHR ''['' \<Longrightarrow>
     fnmatch (c # pat) s \<longleftrightarrow> s \<noteq> [] \<and> hd s = c \<and> fnmatch pat (tl s)"
  by (subst fnmatch.simps) simp

lemma fnmatch_literal_stem:
  "literal_name p \<Longrightarrow> fnmatch (p @ ''.*'') n \<longleftrightarrow> prefix (p @ ''.'') n"
proof (induction p arbitrary: n)
  case Nil
  have "fnmatch ''.*'' n \<longleftrightarrow> n \<noteq> [] \<and> hd n = CHR ''.'' \<and> fnmatch ''*'' (tl n)"
    by (subst fnmatch_literal) simp_all
  then show ?case by (cases n) (auto simp: fnmatch_star_end)
next
  case (Cons c p)
  then have lit: "literal_name p" and c: "c \<noteq> CHR ''*''" "c \<noteq> CHR ''?''" "c \<noteq> CHR ''[''"
    by (auto simp: literal_name_def)
  have "fnmatch ((c # p) @ ''.*'') n \<longleftrightarrow> n \<noteq> [] \<and> hd n = c \<and> fnmatch (p @ ''.*'') (tl n)"
    using fnmatch_literal [OF c, of "p @ ''.*''" n] by simp
  then show ?case using Cons.IH [OF lit] by (cases n) auto
qed

lemma scandir_iff: "n \<in> set (scandir fs d) \<longleftrightarrow> lookup fs (d @ [n]) \<noteq> None"
proof
  assume "n \<in> set (scandir fs d)"
  then obtain q v where qv: "(q, v) \<in> set fs" "q \<noteq> []" "butlast q = d" "last q = n"
    by (auto simp: scandir_def)
  from qv(2,3,4) have "q = d @ [n]" using append_butlast_last_id [of q] by simp
  with qv(1) have "d @ [n] \<in> fst ` set fs" by force
  then show "lookup fs (d @ [n]) \<noteq> None" by (simp add: lookup_def map_of_eq_None_iff)
next
  assume "lookup fs (d @ [n]) \<noteq> None"
  then have "d @ [n] \<in> fst ` set fs" by (simp add: lookup_def map_of_eq_None_iff)
  then obtain v where v: "(d @ [n], v) \<in> set fs" by auto
  have "n \<in> (\<lambda>(q, n). last q) ` {x \<in> set fs. case x of (q, n) \<Rightarrow> q \<noteq> [] \<and> butlast q = d}"
    by (rule image_eqI [of _ _ "(d @ [n], v)"]) (use v in simp_all)
  then show "n \<in> set (scandir fs d)" by (simp add: scandir_def)
qed

lemma path_glob_names:
  "is_dir fs d \<Longrightarrow>
     path_glob fs d pat = map (\<lambda>n. d @ [n]) (filter (fnmatch pat) (scandir fs d))"
  by (simp add: path_glob_def)

lemma in_path_glob:
  "is_dir fs d \<Longrightarrow>
     p \<in> set (path_glob fs d pat) \<longleftrightarrow>
       (\<exists>n. p = d @ [n] \<and> fnmatch pat n \<and> lookup fs (d @ [n]) \<noteq> None)"
  by (auto simp: path_glob_def scandir_iff)

lemma shutil_copy_into_dir:
  assumes "lookup fs dst = Some Dir" "lookup fs (src_dir @ [n]) = Some (File c)"
    "src_dir \<noteq> dst" "lookup fs (dst @ [n]) \<noteq> Some Dir"
  shows "shutil_copy (src_dir @ [n]) dst fs = Inr (store (dst @ [n]) (File c) fs)"
  using assms
  by (auto simp: shutil_copy_def is_dir_def path_exists_def read_bytes_def write_text_def Let_def
      parent_def name_def split: option.splits node.splits)

lemma copy_each_names:
  assumes "lookup (files w) rec = Some Dir"
    and "out \<noteq> rec"
    and "\<forall>n \<in> set names. \<exists>c. lookup (files w) (out @ [n]) = Some (File c)"
    and "\<forall>n \<in> set names. lookup (files w) (rec @ [n]) \<noteq> Some Dir"
  shows "\<exists>fs'. copy_each (map (\<lambda>n. out @ [n]) names) rec w = (None, w\<lparr>files := fs'\<rparr>) \<and>
           (\<forall>q. lookup fs' q =
              (if \<exists>n \<in> set names. q = rec @ [n] then lookup (files w) (out @ [last q])
               else lookup (files w) q))"
  using assms
proof (induction names arbitrary: w)
  case Nil
  show ?case by (rule exI [of _ "files w"]) simp
next
  case (Cons n ns)
  from Cons.prems(3) obtain c where c: "lookup (files w) (out @ [n]) = Some (File c)" by auto
  let ?fs1 = "store (rec @ [n]) (File c) (files w)"
  let ?w1 = "w\<lparr>files := ?fs1\<rparr>"
  have free: "lookup (files w) (rec @ [n]) \<noteq> Some Dir" using Cons.prems(4) by simp
  have cp: "shutil_copy (out @ [n]) rec (files w) = Inr ?fs1"
    by (rule shutil_copy_into_dir [OF Cons.prems(1) c Cons.prems(2) free])
  have p1: "lookup (files ?w1) rec = Some Dir" using Cons.prems(1) by (simp add: lookup_store)
  have p3: "\<forall>m \<in> set ns. \<exists>c. lookup (files ?w1) (out @ [m]) = Some (File c)"
    using Cons.prems(2,3) by (simp add: lookup_store)
  have p4: "\<forall>m \<in> set ns. lookup (files ?w1) (rec @ [m]) \<noteq> Some Dir"
    using Cons.prems(4) by (simp add: lookup_store)
  from Cons.IH [OF p1 Cons.prems(2) p3 p4] obtain fs' where
    rest: "copy_each (map (\<lambda>n. out @ [n]) ns) rec ?w1 = (None, ?w1\<lparr>files := fs'\<rparr>)" and
    look: "\<forall>q. lookup fs' q =
              (if \<exists>m \<in> set ns. q = rec @ [m] then lookup (files ?w1) (out @ [last q])
               else lookup (files ?w1) q)"
    by blast
  have run: "copy_each (map (\<lambda>n. out @ [n]) (n # ns)) rec w = (None, w\<lparr>files := fs'\<rparr>)"
    using rest cp by (simp add: andthen_def on_files_def)
  have "lookup fs' q =
      (if \<exists>m \<in> set (n # ns). q = rec @ [m] then lookup (files w) (out @ [last q])
       else lookup (files w) q)" for q
  proof (cases "\<exists>m \<in> set ns. q = rec @ [m]")
    case True
    then obtain m where m: "m \<in> set ns" "q = rec @ [m]" by blast
    have "out @ [m] \<noteq> rec @ [n]" using Cons.prems(2) by simp
    with look m show ?thesis by (auto simp: lookup_store)
  next
    case False
    with look c show ?thesis by (auto simp: lookup_store)
  qed
  with run show ?case by blast
qed

lemma makedirs_child:
  "lookup fs d = Some Dir \<Longrightarrow> makedirs (d @ [x]) fs = path_mkdir (d @ [x]) fs"
  by (simp add: makedirs_def path_exists_def)

lemma copytree_exists:
  assumes "lookup fs src = Some Dir" "lookup fs d = Some Dir" "lookup fs (d @ [x]) \<noteq> None"
  shows "copytree src (d @ [x]) fs = Inl FileExistsError"
  using assms by (auto simp: copytree_def makedirs_child path_mkdir_def)

lemma copytree_fresh:
  assumes "lookup fs src = Some Dir" "lookup fs d = Some Dir" "lookup fs (d @ [x]) = None"
  shows "copytree src (d @ [x]) fs = Inr (copy_entries src (d @ [x]) fs @ store (d @ [x]) Dir fs)"
  using assms by (simp add: copytree_def makedirs_child path_mkdir_def parent_def)

lemma prefix_snoc_cases:
  "prefix p (q @ [x]) \<Longrightarrow> prefix p q \<or> p = q @ [x]"
  by auto

lemma archive_match_recordings_run:
  assumes loc: "lookup (files w) out = Some Dir"
    and tex: "lookup (files w) (out @ [''textures'']) = Some Dir"
    and rec: "lookup (files w) R = Some Dir \<or>
              (lookup (files w) R = None \<and> lookup (files w) (parent R) = Some Dir)"
    and apart: "\<not> prefix out R" "\<not> prefix R out"
    and regular: "\<forall>p \<in> set (path_glob (files w) out pat). \<exists>c. lookup (files w) p = Some (File c)"
    and free: "\<forall>p \<in> set (path_glob (files w) out pat). lookup (files w) (R @ [name p]) \<noteq> Some Dir"
  shows "\<exists>fs1 fs2 names.
      path_mkdir_exist_ok R (files w) = Inr fs1 \<and>
      path_glob fs1 out pat = map (\<lambda>n. out @ [n]) names \<and>
      set names = {n. fnmatch pat n \<and> lookup (files w) (out @ [n]) \<noteq> None} \<and>
      copy_each (map (\<lambda>n. out @ [n]) names) R (w\<lparr>files := fs1\<rparr>) = (None, w\<lparr>files := fs2\<rparr>) \<and>
      (\<forall>q. lookup fs2 q =
         (if q = R then Some Dir
          else if \<exists>n \<in> set names. q = R @ [n] then lookup (files w) (out @ [last q])
          else lookup (files w) q))"
proof -
  from path_mkdir_exist_ok_run [OF rec] obtain fs1 where
    mk: "path_mkdir_exist_ok R (files w) = Inr fs1" and
    fs1: "\<forall>q. lookup fs1 q = (if q = R then Some Dir else lookup (files w) q)"
    by blast
  have out_R: "out \<noteq> R" using apart(1) by auto
  have child: "out @ [n] \<noteq> R" for n using apart(1) by (auto simp: prefix_def)
  have dir1: "is_dir fs1 out" using loc out_R by (simp add: is_dir_def fs1)
  have dir0: "is_dir (files w) out" using loc by (simp add: is_dir_def)
  define names where "names = filter (fnmatch pat) (scandir fs1 out)"
  have glob1: "path_glob fs1 out pat = map (\<lambda>n. out @ [n]) names"
    using dir1 by (simp add: path_glob_def names_def)
  have names: "set names = {n. fnmatch pat n \<and> lookup (files w) (out @ [n]) \<noteq> None}"
    by (auto simp: names_def scandir_iff fs1 child)
  have in_glob: "out @ [n] \<in> set (path_glob (files w) out pat)" if "n \<in> set names" for n
    using that names by (auto simp: in_path_glob [OF dir0])
  have p1: "lookup (files (w\<lparr>files := fs1\<rparr>)) R = Some Dir" by (simp add: fs1)
  have p3: "\<forall>n \<in> set names. \<exists>c. lookup (files (w\<lparr>files := fs1\<rparr>)) (out @ [n]) = Some (File c)"
    using regular in_glob by (auto simp: fs1 child)
  have p4: "\<forall>n \<in> set names. lookup (files (w\<lparr>files := fs1\<rparr>)) (R @ [n]) \<noteq> Some Dir"
  proof
    fix n assume "n \<in> set names"
    from free [rule_format, OF in_glob [OF this]]
    show "lookup (files (w\<lparr>files := fs1\<rparr>)) (R @ [n]) \<noteq> Some Dir"
      by (simp add: fs1 name_def)
  qed
  from copy_each_names [OF p1 out_R p3 p4] obtain fs2 where
    run: "copy_each (map (\<lambda>n. out @ [n]) names) R (w\<lparr>files := fs1\<rparr>) = (None, w\<lparr>files := fs2\<rparr>)"
    and fs2: "\<forall>q. lookup fs2 q =
        (if \<exists>n \<in> set names. q = R @ [n] then lookup fs1 (out @ [last q]) else lookup fs1 q)"
    by auto
  have "lookup fs2 q =
         (if q = R then Some Dir
          else if \<exists>n \<in> set names. q = R @ [n] then lookup (files w) (out @ [last q])
          else lookup (files w) q)" for q
    using fs2 fs1 child by auto
  with mk glob1 names run show ?thesis by blast
qed


text \<open>
  C5: let the name of the recording stem hold no wildcard character, the location the
  engine records to be a directory that holds the directory \<open>textures\<close>, the directory
  \<open>recordings\<close> of the archive exist or be creatable, neither of the two locations lie
  within the other, no name that shares the stem be that of a directory in either of
  them, and every entry of the file system lie in a directory.
  Then \<open>archive_match_recordings\<close> returns without an exception; every regular file of
  the recording location whose name is the stem, a dot and any extension has a copy
  with the same bytes in \<open>{archives_dir}/recordings\<close>; where
  \<open>{archives_dir}/recordings/textures\<close> did not exist it is now a copy of the tree of
  \<open>textures\<close>, and where it existed already it is left as it was.
\<close>

theorem C5_recordings_archived:
  assumes stem: "literal_name (name (get_recording_stem cu w))"
    and loc: "is_dir (files w) (recording_location cu w)"
    and tex: "is_dir (files w) (recording_location cu w @ [''textures''])"
    and rec: "lookup (files w) (recordings_dir archives) = Some Dir \<or>
              (lookup (files w) (recordings_dir archives) = None \<and>
               lookup (files w) archives = Some Dir)"
    and apart: "\<not> prefix (recording_location cu w) (recordings_dir archives)"
               "\<not> prefix (recordings_dir archives) (recording_location cu w)"
    and regular: "\<forall>n. shares_stem cu w n \<longrightarrow>
                    lookup (files w) (recording_location cu w @ [n]) \<noteq> Some Dir"
    and free: "\<forall>n. shares_stem cu w n \<longrightarrow>
                 lookup (files w) (recordings_dir archives @ [n]) \<noteq> Some Dir"
    and wf: "no_orphans (files w)"
  shows "fst (archive_match_recordings cu archives w) = None \<and>
         (\<forall>n c. shares_stem cu w n \<and>
                 lookup (files w) (recording_location cu w @ [n]) = Some (File c) \<longrightarrow>
            lookup (files (snd (archive_match_recordings cu archives w)))
              (recordings_dir archives @ [n]) = Some (File c)) \<and>
         (lookup (files w) (recordings_dir archives @ [''textures'']) = None \<longrightarrow>
            (\<forall>r. lookup (files (snd (archive_match_recordings cu archives w)))
                    (recordings_dir archives @ [''textures''] @ r) =
                  lookup (files w) (recording_location cu w @ [''textures''] @ r))) \<and>
         (lookup (files w) (recordings_dir archives @ [''textures'']) \<noteq> None \<longrightarrow>
            (\<forall>r. lookup (files (snd (archive_match_recordings cu archives w)))
                    (recordings_dir archives @ [''textures''] @ r) =
                  lookup (files w) (recordings_dir archives @ [''textures''] @ r)))"
proof -
  let ?R = "recordings_dir archives" and ?out = "recording_location cu w"
  let ?pat = "recording_pattern cu w"
  let ?src = "?out @ [''textures'']" and ?dst = "?R @ [''textures'']"
  have loc': "lookup (files w) ?out = Some Dir" and tex': "lookup (files w) ?src = Some Dir"
    using loc tex by (simp_all add: is_dir_def)
  have rec': "lookup (files w) ?R = Some Dir \<or>
      (lookup (files w) ?R = None \<and> lookup (files w) (parent ?R) = Some Dir)"
    using rec by (simp add: recordings_dir_def parent_def)
  have matched: "fnmatch ?pat n \<longleftrightarrow> shares_stem cu w n" for n
    using fnmatch_literal_stem [OF stem] by (simp add: recording_pattern_def shares_stem_def)
  have regular': "\<forall>p \<in> set (path_glob (files w) ?out ?pat). \<exists>c. lookup (files w) p = Some (File c)"
  proof
    fix p assume "p \<in> set (path_glob (files w) ?out ?pat)"
    then obtain n where n: "p = ?out @ [n]" "shares_stem cu w n" "lookup (files w) p \<noteq> None"
      by (auto simp: in_path_glob [OF loc] matched)
    with regular have "lookup (files w) p \<noteq> Some Dir" by simp
    with n(3) show "\<exists>c. lookup (files w) p = Some (File c)"
      by (cases "lookup (files w) p") (auto intro: node.exhaust)
  qed
  have free': "\<forall>p \<in> set (path_glob (files w) ?out ?pat). lookup (files w) (?R @ [name p]) \<noteq> Some Dir"
    using free by (auto simp: in_path_glob [OF loc] matched name_def)
  from archive_match_recordings_run [OF loc' tex' rec' apart regular' free']
  obtain fs1 fs2 names where
    mk: "path_mkdir_exist_ok ?R (files w) = Inr fs1" and
    glob: "path_glob fs1 ?out ?pat = map (\<lambda>n. ?out @ [n]) names" and
    names: "set names = {n. fnmatch ?pat n \<and> lookup (files w) (?out @ [n]) \<noteq> None}" and
    copies: "copy_each (map (\<lambda>n. ?out @ [n]) names) ?R (w\<lparr>files := fs1\<rparr>) = (None, w\<lparr>files := fs2\<rparr>)" and
    fs2: "\<forall>q. lookup fs2 q =
         (if q = ?R then Some Dir
          else if \<exists>n \<in> set names. q = ?R @ [n] then lookup (files w) (?out @ [last q])
          else lookup (files w) q)"
    by blast
  have not_tex: "''textures'' \<notin> set names"
  proof
    assume "''textures'' \<in> set names"
    with names have "?src \<in> set (path_glob (files w) ?out ?pat)"
      by (auto simp: in_path_glob [OF loc])
    with regular' tex' show False by auto
  qed
  have src_out: "?src @ r \<noteq> ?R @ [n]" "?src @ r \<noteq> ?R" for r n
  proof -
    show "?src @ r \<noteq> ?R @ [n]"
    proof
      assume eq: "?src @ r = ?R @ [n]"
      have "prefix ?out (?R @ [n])" unfolding eq [symmetric] by simp
      then have "prefix ?out ?R \<or> ?out = ?R @ [n]" by auto
      with apart show False by auto
    qed
    show "?src @ r \<noteq> ?R"
    proof
      assume eq: "?src @ r = ?R"
      have "prefix ?out ?R" unfolding eq [symmetric] by simp
      with apart show False by simp
    qed
  qed
  have src2: "lookup fs2 (?src @ r) = lookup (files w) (?src @ r)" for r
    using fs2 src_out [of r] by simp
  have dst2: "lookup fs2 (?dst @ r) = lookup (files w) (?dst @ r)" for r
    using fs2 not_tex by simp
  have R2: "lookup fs2 ?R = Some Dir" using fs2 by simp
  have stem_eq: "get_recording_stem cu (w\<lparr>files := fs1\<rparr>) = get_recording_stem cu w"
    by (simp add: get_recording_stem_def)
  have run: "archive_match_recordings cu archives w =
      (case copytree ?src ?dst fs2 of
         Inl e \<Rightarrow> if e = FileExistsError then (None, w\<lparr>files := fs2\<rparr>) else (Some e, w\<lparr>files := fs2\<rparr>)
       | Inr fs' \<Rightarrow> (None, w\<lparr>files := fs'\<rparr>))"
    using mk glob copies
    unfolding archive_match_recordings_def Let_def andthen_def on_files_def
      recordings_dir_def recording_location_def recording_pattern_def
    by (simp add: stem_eq split: sum.splits)
  have copied: "lookup fs2 (?R @ [n]) = Some (File c)"
    if "shares_stem cu w n" "lookup (files w) (?out @ [n]) = Some (File c)" for n c
  proof -
    from that names have "n \<in> set names" by (simp add: matched)
    with fs2 that(2) show ?thesis by auto
  qed
  have s2: "lookup fs2 ?src = Some Dir" using src2 [of "[]"] tex' by simp
  show ?thesis
  proof (cases "lookup (files w) ?dst")
    case None
    with dst2 [of "[]"] have d2: "lookup fs2 ?dst = None" by simp
    let ?fs' = "copy_entries ?src ?dst fs2 @ store ?dst Dir fs2"
    from run copytree_fresh [OF s2 R2 d2]
    have res: "archive_match_recordings cu archives w = (None, w\<lparr>files := ?fs'\<rparr>)" by simp
    have files: "lookup ?fs' (?R @ [n]) = Some (File c)"
      if "shares_stem cu w n" "lookup (files w) (?out @ [n]) = Some (File c)" for n c
    proof -
      from that(2) tex' have "n \<noteq> ''textures''" by auto
      then have "\<not> strict_prefix ?dst (?R @ [n])" "?R @ [n] \<noteq> ?dst"
        by (auto simp: strict_prefix_def prefix_def)
      then show ?thesis
        using copied [OF that] by (simp add: lookup_append lookup_copy_entries lookup_store)
    qed
    have tree: "lookup ?fs' (?dst @ r) = lookup (files w) (?src @ r)" for r
    proof (cases "r = []")
      case True
      then show ?thesis using tex' by (simp add: lookup_append lookup_copy_entries lookup_store)
    next
      case False
      then have sp: "strict_prefix ?dst (?dst @ r)" by (simp add: strict_prefix_def)
      have below: "lookup (files w) (?dst @ r) = None"
        using no_orphans_below [OF wf None] .
      have "lookup ?fs' (?dst @ r) =
          (case lookup fs2 (?src @ r) of Some n \<Rightarrow> Some n | None \<Rightarrow> lookup fs2 (?dst @ r))"
        using sp False
        by (simp add: lookup_append lookup_copy_entries lookup_store split: option.splits)
      then show ?thesis
        using src2 [of r] dst2 [of r] below by (simp split: option.splits)
    qed
    from res files tree None show ?thesis by simp
  next
    case (Some node)
    with dst2 [of "[]"] have d2: "lookup fs2 ?dst \<noteq> None" by simp
    from run copytree_exists [OF s2 R2 d2]
    have res: "archive_match_recordings cu archives w = (None, w\<lparr>files := fs2\<rparr>)" by simp
    from res copied dst2 Some show ?thesis by simp
  qed
qed

lemma recording_paths:
  "get_recording_stem example_utils collation_world = [''ws'', ''recordings'', ''clip'']"
  "get_recording_stem example_utils rerun_world = [''ws'', ''recordings'', ''clip'']"
  "recording_location example_utils collation_world = [''ws'', ''recordings'']"
  "recording_location example_utils rerun_world = [''ws'', ''recordings'']"
  "recording_pattern example_utils collation_world = ''clip.*''"
  "recording_pattern example_utils rerun_world = ''clip.*''"
  "recordings_dir [''arch''] = [''arch'', ''recordings'']"
  by (simp_all add: get_recording_stem_def recording_location_def recording_pattern_def
      recordings_dir_def example_utils_def collation_world_def rerun_world_def parent_def name_def)

lemma recording_files:
  "lookup (files collation_world) [''ws'', ''recordings''] = Some Dir"
  "lookup (files collation_world) [''ws'', ''recordings'', ''textures''] = Some Dir"
  "lookup (files collation_world) [''ws'', ''recordings'', ''clip.mp4''] = Some (File ''MP4'')"
  "lookup (files collation_world) [''ws'', ''recordings'', ''clip.srt''] = Some (File ''SRT'')"
  "lookup (files collation_world) [''ws'', ''recordings'', ''textures'', ''t.png''] =
     Some (File ''PNG'')"
  "lookup (files collation_world) [''arch''] = Some Dir"
  "lookup (files collation_world) [''arch'', ''recordings''] = None"
  "lookup (files collation_world) [''arch'', ''recordings'', ''clip.mp4''] = None"
  "lookup (files collation_world) [''arch'', ''recordings'', ''clip.srt''] = None"
  "lookup (files collation_world) [''arch'', ''recordings'', ''textures''] = None"
  "no_orphans (files collation_world)"
  by (simp_all add: collation_world_def lookup_def no_orphans_def parent_def)

lemma rerun_files:
  "lookup (files rerun_world) [''ws'', ''recordings''] = Some Dir"
  "lookup (files rerun_world) [''ws'', ''recordings'', ''textures''] = Some Dir"
  "lookup (files rerun_world) [''ws'', ''recordings'', ''clip.mp4''] = Some (File ''MP4'')"
  "lookup (files rerun_world) [''ws'', ''recordings'', ''clip.srt''] = Some (File ''SRT'')"
  "lookup (files rerun_world) [''arch'', ''recordings''] = Some Dir"
  "lookup (files rerun_world) [''arch'', ''recordings'', ''clip.mp4''] = Some (File ''OLD'')"
  "lookup (files rerun_world) [''arch'', ''recordings'', ''clip.srt''] = None"
  "lookup (files rerun_world) [''arch'', ''recordings'', ''textures''] = Some Dir"
  "lookup (files rerun_world) [''arch'', ''recordings'', ''textures'', ''t.png''] =
     Some (File ''PNG'')"
  "no_orphans (files rerun_world)"
  by (simp_all add: rerun_world_def collation_world_def lookup_def no_orphans_def parent_def)

lemma recording_dirs:
  "lookup (files collation_world) [''ws'', ''recordings'', n] = Some Dir \<Longrightarrow> n = ''textures''"
  "lookup (files collation_world) [''arch'', ''recordings'', n] \<noteq> Some Dir"
  "lookup (files rerun_world) [''ws'', ''recordings'', n] = Some Dir \<Longrightarrow> n = ''textures''"
  "lookup (files rerun_world) [''arch'', ''recordings'', n] = Some Dir \<Longrightarrow> n = ''textures''"
  by (simp_all add: lookup_def collation_world_def rerun_world_def split: if_splits)

lemma recording_shares:
  "shares_stem example_utils collation_world n \<longleftrightarrow> prefix ''clip.'' n"
  "shares_stem example_utils rerun_world n \<longleftrightarrow> prefix ''clip.'' n"
  by (simp_all add: shares_stem_def recording_paths name_def)

lemma recording_hypotheses:
  "literal_name (name (get_recording_stem example_utils collation_world))"
  "literal_name (name (get_recording_stem example_utils rerun_world))"
  "\<forall>n. shares_stem example_utils collation_world n \<longrightarrow>
       lookup (files collation_world) ([''ws'', ''recordings''] @ [n]) \<noteq> Some Dir"
  "\<forall>n. shares_stem example_utils collation_world n \<longrightarrow>
       lookup (files collation_world) ([''arch'', ''recordings''] @ [n]) \<noteq> Some Dir"
  "\<forall>n. shares_stem example_utils rerun_world n \<longrightarrow>
       lookup (files rerun_world) ([''ws'', ''recordings''] @ [n]) \<noteq> Some Dir"
  "\<forall>n. shares_stem example_utils rerun_world n \<longrightarrow>
       lookup (files rerun_world) ([''arch'', ''recordings''] @ [n]) \<noteq> Some Dir"
proof -
  show "literal_name (name (get_recording_stem example_utils collation_world))"
    "literal_name (name (get_recording_stem example_utils rerun_world))"
    by (simp_all add: recording_paths name_def literal_name_def)
  have no: "\<not> prefix ''clip.'' ''textures''" by simp
  show "\<forall>n. shares_stem example_utils collation_world n \<longrightarrow>
       lookup (files collation_world) ([''ws'', ''recordings''] @ [n]) \<noteq> Some Dir"
    unfolding recording_shares using recording_dirs(1) no by fastforce
  show "\<forall>n. shares_stem example_utils collation_world n \<longrightarrow>
       lookup (files collation_world) ([''arch'', ''recordings''] @ [n]) \<noteq> Some Dir"
    using recording_dirs(2) by simp
  show "\<forall>n. shares_stem example_utils rerun_world n \<longrightarrow>
       lookup (files rerun_world) ([''ws'', ''recordings''] @ [n]) \<noteq> Some Dir"
    unfolding recording_shares using recording_dirs(3) no by fastforce
  show "\<forall>n. shares_stem example_utils rerun_world n \<longrightarrow>
       lookup (files rerun_world) ([''arch'', ''recordings''] @ [n]) \<noteq> Some Dir"
    unfolding recording_shares using recording_dirs(4) no by fastforce
qed

theorem C5_recordings_archived_witness:
  "fst (archive_match_recordings example_utils [''arch''] collation_world) = None \<and>
   lookup (files (snd (archive_match_recordings example_utils [''arch''] collation_world)))
     [''arch'', ''recordings'', ''clip.mp4''] = Some (File ''MP4'') \<and>
   lookup (files (snd (archive_match_recordings example_utils [''arch''] collation_world)))
     [''arch'', ''recordings'', ''clip.srt''] = Some (File ''SRT'') \<and>
   lookup (files (snd (archive_match_recordings example_utils [''arch''] collation_world)))
     [''arch'', ''recordings'', ''textures'', ''t.png''] = Some (File ''PNG'') \<and>
   fst (archive_match_recordings example_utils [''arch''] rerun_world) = None \<and>
   lookup (files (snd (archive_match_recordings example_utils [''arch''] rerun_world)))
     [''arch'', ''recordings'', ''clip.mp4''] = Some (File ''MP4'') \<and>
   lookup (files (snd (archive_match_recordings example_utils [''arch''] rerun_world)))
     [''arch'', ''recordings'', ''textures'', ''t.png''] = Some (File ''PNG'')"
proof -
  let ?cu = example_utils
  let ?r = "archive_match_recordings ?cu [''arch''] collation_world"
  let ?r' = "archive_match_recordings ?cu [''arch''] rerun_world"
  have shares: "shares_stem ?cu collation_world ''clip.mp4''"
    "shares_stem ?cu collation_world ''clip.srt''"
    "shares_stem ?cu rerun_world ''clip.mp4''"
    by (simp_all add: recording_shares)
  have first: "fst ?r = None \<and>
     (\<forall>n c. shares_stem ?cu collation_world n \<and>
             lookup (files collation_world) ([''ws'', ''recordings''] @ [n]) = Some (File c) \<longrightarrow>
        lookup (files (snd ?r)) ([''arch'', ''recordings''] @ [n]) = Some (File c)) \<and>
     (\<forall>r. lookup (files (snd ?r)) ([''arch'', ''recordings''] @ [''textures''] @ r) =
           lookup (files collation_world) ([''ws'', ''recordings''] @ [''textures''] @ r))"
    using C5_recordings_archived [of ?cu collation_world "[''arch'']", unfolded recording_paths,
        OF recording_hypotheses(1) [unfolded recording_paths] _ _ _ _ _
           recording_hypotheses(3,4) recording_files(11)]
    by (simp add: recording_files is_dir_def)
  have second: "fst ?r' = None \<and>
     (\<forall>n c. shares_stem ?cu rerun_world n \<and>
             lookup (files rerun_world) ([''ws'', ''recordings''] @ [n]) = Some (File c) \<longrightarrow>
        lookup (files (snd ?r')) ([''arch'', ''recordings''] @ [n]) = Some (File c)) \<and>
     (\<forall>r. lookup (files (snd ?r')) ([''arch'', ''recordings''] @ [''textures''] @ r) =
           lookup (files rerun_world) ([''arch'', ''recordings''] @ [''textures''] @ r))"
    using C5_recordings_archived [of ?cu rerun_world "[''arch'']", unfolded recording_paths,
        OF recording_hypotheses(2) [unfolded recording_paths] _ _ _ _ _
           recording_hypotheses(5,6) rerun_files(10)]
    by (simp add: rerun_files is_dir_def)
  from first have a: "fst ?r = None"
    and b: "\<And>n c. shares_stem ?cu collation_world n \<Longrightarrow>
             lookup (files collation_world) ([''ws'', ''recordings''] @ [n]) = Some (File c) \<Longrightarrow>
             lookup (files (snd ?r)) ([''arch'', ''recordings''] @ [n]) = Some (File c)"
    and c: "\<And>r. lookup (files (snd ?r)) ([''arch'', ''recordings''] @ [''textures''] @ r) =
           lookup (files collation_world) ([''ws'', ''recordings''] @ [''textures''] @ r)"
    by blast+
  from second have a': "fst ?r' = None"
    and b': "\<And>n c. shares_stem ?cu rerun_world n \<Longrightarrow>
             lookup (files rerun_world) ([''ws'', ''recordings''] @ [n]) = Some (File c) \<Longrightarrow>
             lookup (files (snd ?r')) ([''arch'', ''recordings''] @ [n]) = Some (File c)"
    and c': "\<And>r. lookup (files (snd ?r')) ([''arch'', ''recordings''] @ [''textures''] @ r) =
           lookup (files rerun_world) ([''arch'', ''recordings''] @ [''textures''] @ r)"
    by blast+
  from a b [OF shares(1)] b [OF shares(2)] c [of "[''t.png'']"]
    a' b' [OF shares(3)] c' [of "[''t.png'']"]
  show ?thesis by (simp add: recording_files rerun_files)
qed

end
